(* ===== verification/Prelude.thy ===== *)
theory Prelude
  imports Main "HOL-Library.Word" "HOL-Library.Sublist"
begin

text \<open>
  Shared vocabulary of the development: the machine types of the Rust code as words, the
  \<open>Result\<close> type with its question-mark operator, little-endian bytes, and the generic facts
  on them that every component uses.

  \<^item> \<open>u8\<close>, \<open>u16\<close>, \<open>u32\<close>, \<open>u64\<close> and \<open>i64\<close> are words of their width (a signed word is
    read with \<open>sint\<close>); \<open>usize\<close> values are \<open>nat\<close> (a 64-bit target never reaches the bound
    with the sizes the code handles);
  \<^item> \<open>Result<T, E>\<close> is \<open>'e + 'a\<close>, written with \<open>Ok\<close> and \<open>Err\<close>;
  \<^item> the collection \<open>res_simps\<close> gathers the rules that run a sequence of fallible steps.
\<close>

type_synonym u8 = "8 word"
type_synonym u16 = "16 word"
type_synonym u32 = "32 word"
type_synonym u64 = "64 word"
type_synonym i64 = "64 word"
type_synonym bytes = "u8 list"

named_theorems res_simps \<open>rules that evaluate a sequence of fallible steps\<close>

section \<open>Results\<close>

abbreviation Ok :: "'a \<Rightarrow> 'e + 'a" where "Ok \<equiv> Inr"
abbreviation Err :: "'e \<Rightarrow> 'e + 'a" where "Err \<equiv> Inl"

text \<open>The question-mark operator: go on with the value, or return the error.\<close>

definition res_bind :: "'e + 'a \<Rightarrow> ('a \<Rightarrow> 'e + 'b) \<Rightarrow> 'e + 'b" where
  "res_bind m k = (case m of Err e \<Rightarrow> Err e | Ok x \<Rightarrow> k x)"

definition map_err :: "('e \<Rightarrow> 'f) \<Rightarrow> 'e + 'a \<Rightarrow> 'f + 'a" where
  "map_err f m = (case m of Err e \<Rightarrow> Err (f e) | Ok x \<Rightarrow> Ok x)"

definition ok_or :: "'e \<Rightarrow> 'a option \<Rightarrow> 'e + 'a" where
  "ok_or e m = (case m of None \<Rightarrow> Err e | Some x \<Rightarrow> Ok x)"

definition is_err :: "'e + 'a \<Rightarrow> bool" where
  "is_err m = (case m of Err e \<Rightarrow> True | Ok x \<Rightarrow> False)"

lemma res_bind_simps [simp, res_simps]:
  "res_bind (Err e) k = Err e"
  "res_bind (Ok x) k = k x"
  by (simp_all add: res_bind_def)

lemma map_err_simps [simp, res_simps]:
  "map_err f (Err e) = Err (f e)"
  "map_err f (Ok x) = Ok x"
  by (simp_all add: map_err_def)

lemma ok_or_simps [simp, res_simps]:
  "ok_or e None = Err e"
  "ok_or e (Some x) = Ok x"
  by (simp_all add: ok_or_def)

lemma is_err_simps [simp, res_simps]:
  "is_err (Err e)"
  "\<not> is_err (Ok x)"
  by (simp_all add: is_err_def)

lemma res_bind_eq_Ok: "res_bind m k = Ok y \<longleftrightarrow> (\<exists>x. m = Ok x \<and> k x = Ok y)"
  by (cases m) auto

lemma res_bind_eq_Err:
  "res_bind m k = Err e \<longleftrightarrow> m = Err e \<or> (\<exists>x. m = Ok x \<and> k x = Err e)"
  by (cases m) auto

lemma res_bind_assoc: "res_bind (res_bind m f) g = res_bind m (\<lambda>x. res_bind (f x) g)"
  by (cases m) auto

lemma map_err_eq_Ok [simp]: "map_err f m = Ok x \<longleftrightarrow> m = Ok x"
  by (cases m) auto

lemma map_err_eq_Err: "map_err f m = Err e \<longleftrightarrow> (\<exists>e'. m = Err e' \<and> e = f e')"
  by (cases m) auto

lemma ok_or_eq_Ok [simp]: "ok_or e m = Ok x \<longleftrightarrow> m = Some x"
  by (cases m) auto

lemma ok_or_eq_Err [simp]: "ok_or e m = Err e' \<longleftrightarrow> m = None \<and> e' = e"
  by (cases m) auto

lemmas res_eqs = res_bind_eq_Ok res_bind_eq_Err map_err_eq_Err

section \<open>Little-endian bytes\<close>

definition u16_to_le :: "u16 \<Rightarrow> bytes" where
  "u16_to_le w = [ucast w, ucast (drop_bit 8 w)]"

definition u32_to_le :: "u32 \<Rightarrow> bytes" where
  "u32_to_le w = [ucast w, ucast (drop_bit 8 w), ucast (drop_bit 16 w), ucast (drop_bit 24 w)]"

definition u16_from_le :: "u8 \<Rightarrow> u8 \<Rightarrow> u16" where
  "u16_from_le a b = or (ucast a) (push_bit 8 (ucast b))"

definition u32_from_le :: "u8 \<Rightarrow> u8 \<Rightarrow> u8 \<Rightarrow> u8 \<Rightarrow> u32" where
  "u32_from_le a b c d =
     or (or (ucast a) (push_bit 8 (ucast b)))
        (or (push_bit 16 (ucast c)) (push_bit 24 (ucast d)))"

lemma length_u16_to_le [simp]: "length (u16_to_le w) = 2"
  by (simp add: u16_to_le_def)

lemma length_u32_to_le [simp]: "length (u32_to_le w) = 4"
  by (simp add: u32_to_le_def)

lemma no_bit_u8 [simp]:
  "\<not> bit (a :: u8) (8 + n)" "\<not> bit (a :: u8) (16 + n)" "\<not> bit (a :: u8) (24 + n)"
  by (auto dest: bit_imp_le_length)

lemma u16_from_to_le [simp]: "u16_from_le (ucast w) (ucast (drop_bit 8 w)) = w"
  by (rule bit_word_eqI) (auto simp: u16_from_le_def bit_simps not_less)

lemma u32_from_to_le [simp]:
  "u32_from_le (ucast w) (ucast (drop_bit 8 w)) (ucast (drop_bit 16 w)) (ucast (drop_bit 24 w)) = w"
proof (rule bit_word_eqI)
  fix n assume "n < LENGTH(32)"
  then consider "n < 8" | "8 \<le> n" "n < 16" | "16 \<le> n" "n < 24" | "24 \<le> n" "n < 32"
    by fastforce
  then show "bit (u32_from_le (ucast w) (ucast (drop_bit 8 w)) (ucast (drop_bit 16 w))
      (ucast (drop_bit 24 w))) n = bit w n"
    by cases (auto simp: u32_from_le_def bit_simps less_diff_conv2)
qed

lemma u32_to_le_inj: "u32_to_le v = u32_to_le w \<longleftrightarrow> v = w"
proof
  assume "u32_to_le v = u32_to_le w"
  then have "u32_from_le (ucast v) (ucast (drop_bit 8 v)) (ucast (drop_bit 16 v)) (ucast (drop_bit 24 v)) =
      u32_from_le (ucast w) (ucast (drop_bit 8 w)) (ucast (drop_bit 16 w)) (ucast (drop_bit 24 w))"
    unfolding u32_to_le_def by (simp only: list.inject)
  then show "v = w" by (simp only: u32_from_to_le)
qed simp

lemma u16_to_from_le: "u16_to_le (u16_from_le a b) = [a, b]"
  by (auto simp: u16_to_le_def u16_from_le_def bit_simps
      intro!: bit_word_eqI)

lemma u32_to_from_le: "u32_to_le (u32_from_le a b c d) = [a, b, c, d]"
  by (auto simp: u32_to_le_def u32_from_le_def bit_simps
      intro!: bit_word_eqI)

section \<open>Words and lengths\<close>

lemma unat_of_nat_u16: "n < 65536 \<Longrightarrow> unat (of_nat n :: u16) = n"
  by (simp add: unat_of_nat)

lemma unat_of_nat_u32: "n < 4294967296 \<Longrightarrow> unat (of_nat n :: u32) = n"
  by (simp add: unat_of_nat)

lemma unat_u16_less: "unat (w :: u16) < 65536"
  using unsigned_less [of w] by simp

lemma unat_u32_less: "unat (w :: u32) < 4294967296"
  using unsigned_less [of w] by simp

lemma unat_u8_less: "unat (w :: u8) < 256"
  using unsigned_less [of w] by simp

lemma unat_u64_less: "unat (w :: u64) < 18446744073709551616"
  using unsigned_less [of w] by simp

section \<open>Lists\<close>

lemma take_append_drop_eq: "n \<le> length xs \<Longrightarrow> take n xs @ drop n xs = xs"
  by simp

lemma append_eq_take_drop:
  "xs = ys @ zs \<Longrightarrow> take (length ys) xs = ys \<and> drop (length ys) xs = zs"
  by simp

lemma in_map_filter: "y \<in> set (List.map_filter f xs) \<longleftrightarrow> (\<exists>x \<in> set xs. f x = Some y)"
  by (induction xs) (auto simp: map_filter_simps split: option.splits)

lemma nth_append_at_length: "(xs @ y # ys) ! length xs = y"
  by simp

section \<open>Reachable states\<close>

text \<open>
  The states a step relation reaches from a start state, and the interface of an inductive
  invariant: a predicate the start state has and every step keeps.
\<close>

inductive reachable :: "'s \<Rightarrow> ('s \<Rightarrow> 's \<Rightarrow> bool) \<Rightarrow> 's \<Rightarrow> bool" for s0 step where
  reachable_init: "reachable s0 step s0"
| reachable_step: "reachable s0 step s \<Longrightarrow> step s t \<Longrightarrow> reachable s0 step t"

lemma reachable_trans: "reachable v R u \<Longrightarrow> reachable w R v \<Longrightarrow> reachable w R u"
  by (induction rule: reachable.induct) (auto intro: reachable.reachable_step)

lemma reachable_one: "R w v \<Longrightarrow> reachable w R v"
  by (blast intro: reachable.intros)

locale invariant =
  fixes init :: "'a \<Rightarrow> 's" and step :: "'s \<Rightarrow> 's \<Rightarrow> bool" and inv :: "'a \<Rightarrow> 's \<Rightarrow> bool"
  assumes inv_init: "inv a (init a)"
    and inv_step: "inv a s \<Longrightarrow> step s t \<Longrightarrow> inv a t"
begin

lemma reachable_inv: "reachable (init a) step s \<Longrightarrow> inv a s"
  by (induction rule: reachable.induct) (auto intro: inv_init inv_step)

end

text \<open>
  A forward simulation: read through an abstraction, the program starts where the
  specification does and each of its steps is a step of the specification or none. Then it
  reaches what the specification reaches, and has the specification's invariants.
\<close>

locale simulation =
  fixes init :: "'a \<Rightarrow> 's" and step :: "'s \<Rightarrow> 's \<Rightarrow> bool"
    and spec_init :: "'t" and spec_step :: "'t \<Rightarrow> 't \<Rightarrow> bool" and view :: "'s \<Rightarrow> 't"
  assumes sim_init: "view (init a) = spec_init"
    and sim_step: "reachable (init a) step s \<Longrightarrow> step s t \<Longrightarrow>
      spec_step (view s) (view t) \<or> view t = view s"
begin

lemma reachable_view: "reachable (init a) step s \<Longrightarrow> reachable spec_init spec_step (view s)"
proof (induction rule: reachable.induct)
  case reachable_init
  show ?case by (simp add: sim_init reachable.reachable_init)
next
  case (reachable_step s t)
  from sim_step [OF reachable_step(1,2)] reachable_step(3) show ?case
    by (auto intro: reachable.reachable_step)
qed

end

end
