(* ===== verification/RustStr.thy ===== *)
theory RustStr
  imports Prelude
begin

text \<open>
  The part of Rust's standard library on strings that the code uses. A \<open>String\<close> is its UTF-8
  bytes; a HOL \<open>string\<close> is a list of 8-bit characters, so it holds exactly those bytes, and
  Rust's type invariant (the bytes are valid UTF-8) is the predicate \<open>utf8_valid\<close>. The
  operations below are the standard library's: validation with its error position, lossy
  decoding, splitting and stripping, decimal and hexadecimal printing and parsing.
\<close>

section \<open>Strings and their bytes\<close>

definition as_bytes :: "string \<Rightarrow> bytes" where
  "as_bytes s = map of_char s"

definition string_of :: "bytes \<Rightarrow> string" where
  "string_of bs = map (\<lambda>b. char_of (unat b)) bs"

lemma unat_of_char: "unat (of_char c :: u8) = of_char c"
  by (cases c) (simp add: of_char_Char)

lemma char_of_unat_of_char [simp]: "char_of (unat (of_char c :: u8)) = c"
  by (simp add: unat_of_char)

lemma of_char_char_of_unat [simp]: "of_char (char_of (unat b)) = (b :: u8)"
proof -
  have "unat b < 256"
    by (rule order.strict_trans2 [OF unsigned_less]) simp
  then have "unat (of_char (char_of (unat b)) :: u8) = unat b"
    by (simp add: unat_of_char of_char_of)
  then show ?thesis by (rule unsigned_word_eqI)
qed

lemma string_of_as_bytes [simp]: "string_of (as_bytes s) = s"
  by (simp add: string_of_def as_bytes_def comp_def)

lemma as_bytes_string_of [simp]: "as_bytes (string_of bs) = bs"
  by (simp add: string_of_def as_bytes_def comp_def)

lemma length_as_bytes [simp]: "length (as_bytes s) = length s"
  by (simp add: as_bytes_def)

lemma length_string_of [simp]: "length (string_of bs) = length bs"
  by (simp add: string_of_def)

lemma as_bytes_simps [simp]:
  "as_bytes [] = []"
  "as_bytes (c # s) = of_char c # as_bytes s"
  "as_bytes (s @ t) = as_bytes s @ as_bytes t"
  by (simp_all add: as_bytes_def)

lemma string_of_simps [simp]:
  "string_of [] = []"
  "string_of (b # bs) = char_of (unat b) # string_of bs"
  "string_of (bs @ cs) = string_of bs @ string_of cs"
  by (simp_all add: string_of_def)

lemma as_bytes_inject [simp]: "as_bytes s = as_bytes t \<longleftrightarrow> s = t"
  by (metis string_of_as_bytes)

section \<open>UTF-8\<close>

text \<open>
  One step of the standard library's validation: the width of the first character, or the
  length of the invalid sequence (\<open>None\<close> when the input ends inside a character, as in
  \<open>Utf8Error::error_len\<close>).
\<close>

datatype utf8_step = Utf8_End | Utf8_Char nat | Utf8_Bad "nat option"

definition utf8_width :: "u8 \<Rightarrow> nat" where
  "utf8_width b =
     (if b < 0x80 then 1 else if b < 0xC2 then 0 else if b < 0xE0 then 2
      else if b < 0xF0 then 3 else if b < 0xF5 then 4 else 0)"

definition utf8_cont :: "u8 \<Rightarrow> bool" where
  "utf8_cont b \<longleftrightarrow> 0x80 \<le> b \<and> b \<le> 0xBF"

text \<open>The bytes that may follow the first one of a three- or four-byte character.\<close>

definition utf8_second :: "u8 \<Rightarrow> u8 \<Rightarrow> bool" where
  "utf8_second a b \<longleftrightarrow>
     (if a = 0xE0 then 0xA0 \<le> b \<and> b \<le> 0xBF
      else if a = 0xED then 0x80 \<le> b \<and> b \<le> 0x9F
      else if a = 0xF0 then 0x90 \<le> b \<and> b \<le> 0xBF
      else if a = 0xF4 then 0x80 \<le> b \<and> b \<le> 0x8F
      else utf8_cont b)"

fun utf8_tail :: "nat \<Rightarrow> nat \<Rightarrow> bytes \<Rightarrow> utf8_step" where
  "utf8_tail seen 0 bs = Utf8_Char seen"
| "utf8_tail seen (Suc n) [] = Utf8_Bad None"
| "utf8_tail seen (Suc n) (b # bs) =
     (if utf8_cont b then utf8_tail (Suc seen) n bs else Utf8_Bad (Some seen))"

fun utf8_next :: "bytes \<Rightarrow> utf8_step" where
  "utf8_next [] = Utf8_End"
| "utf8_next (a # bs) =
     (let w = utf8_width a in
      if w = 0 then Utf8_Bad (Some 1)
      else if w = 1 then Utf8_Char 1
      else case bs of
        [] \<Rightarrow> Utf8_Bad None
      | b # bs' \<Rightarrow>
          (if utf8_second a b then utf8_tail 2 (w - 2) bs' else Utf8_Bad (Some 1)))"

lemma utf8_tail_bound:
  "utf8_tail seen n bs = Utf8_Char k \<Longrightarrow> k = seen + n \<and> n \<le> length bs"
  by (induction seen n bs rule: utf8_tail.induct) (auto split: if_splits)

lemma utf8_tail_bad_bound: "utf8_tail seen n bs = Utf8_Bad (Some k) \<Longrightarrow> seen \<le> k"
  by (induction seen n bs rule: utf8_tail.induct) (auto split: if_splits)

lemma utf8_tail_append:
  "utf8_tail seen n bs = Utf8_Char k \<Longrightarrow> utf8_tail seen n (bs @ cs) = Utf8_Char k"
  by (induction seen n bs rule: utf8_tail.induct) (auto split: if_splits)

lemma utf8_next_char:
  "utf8_next bs = Utf8_Char k \<Longrightarrow> 1 \<le> k \<and> k \<le> length bs"
  by (cases bs)
    (auto simp: Let_def utf8_width_def split: if_splits list.splits dest!: utf8_tail_bound)

lemma utf8_next_bad: "utf8_next bs = Utf8_Bad (Some k) \<Longrightarrow> 1 \<le> k"
  by (cases bs) (auto simp: Let_def split: if_splits list.splits dest!: utf8_tail_bad_bound)

lemma utf8_next_append:
  "utf8_next bs = Utf8_Char k \<Longrightarrow> utf8_next (bs @ cs) = Utf8_Char k"
  by (cases bs) (auto simp: Let_def split: if_splits list.splits intro: utf8_tail_append)

lemma utf8_tail_not_end: "utf8_tail seen n bs \<noteq> Utf8_End"
  by (induction seen n bs rule: utf8_tail.induct) auto

lemma utf8_next_end [simp]: "utf8_next bs = Utf8_End \<longleftrightarrow> bs = []"
  by (cases bs) (auto simp: Let_def utf8_tail_not_end split: list.splits)

lemma utf8_next_bad_nonempty: "utf8_next bs = Utf8_Bad x \<Longrightarrow> bs \<noteq> []"
  by (cases bs) auto

lemma utf8_next_ascii: "b < 0x80 \<Longrightarrow> utf8_next (b # bs) = Utf8_Char 1"
  by (simp add: utf8_width_def)

declare utf8_next.simps(2) [simp del]

record utf8_error =
  valid_up_to :: nat
  error_len :: "nat option"

text \<open>The validation loop: \<open>None\<close> when every character is well formed.\<close>

function utf8_scan :: "nat \<Rightarrow> bytes \<Rightarrow> utf8_error option" where
  "utf8_scan pos bs =
     (case utf8_next bs of
        Utf8_End \<Rightarrow> None
      | Utf8_Bad len \<Rightarrow> Some \<lparr>valid_up_to = pos, error_len = len\<rparr>
      | Utf8_Char n \<Rightarrow> utf8_scan (pos + n) (drop n bs))"
  by pat_completeness auto
termination
  by (relation "measure (\<lambda>(pos, bs). length bs)") (auto dest: utf8_next_char)

declare utf8_scan.simps [simp del]

definition utf8_valid :: "string \<Rightarrow> bool" where
  "utf8_valid s \<longleftrightarrow> utf8_scan 0 (as_bytes s) = None"

text \<open>\<open>std::str::from_utf8\<close>.\<close>

definition from_utf8 :: "bytes \<Rightarrow> utf8_error + string" where
  "from_utf8 bs = (case utf8_scan 0 bs of None \<Rightarrow> Ok (string_of bs) | Some e \<Rightarrow> Err e)"

lemma from_utf8_Ok: "from_utf8 bs = Ok s \<longleftrightarrow> bs = as_bytes s \<and> utf8_valid s"
  by (auto simp: from_utf8_def utf8_valid_def split: option.splits)

lemma from_utf8_as_bytes [simp]: "utf8_valid s \<Longrightarrow> from_utf8 (as_bytes s) = Ok s"
  by (simp add: from_utf8_Ok)

lemma utf8_scan_ascii:
  "\<forall>b \<in> set bs. b < 0x80 \<Longrightarrow> utf8_scan pos bs = None"
proof (induction bs arbitrary: pos)
  case Nil
  then show ?case by (simp add: utf8_scan.simps)
next
  case (Cons b bs)
  then show ?case by (subst utf8_scan.simps) (simp add: utf8_next_ascii)
qed

text \<open>ASCII strings are valid UTF-8.\<close>

lemma utf8_valid_ascii: "\<forall>c \<in> set s. of_char c < (0x80 :: u8) \<Longrightarrow> utf8_valid s"
  unfolding utf8_valid_def by (rule utf8_scan_ascii) (auto simp: as_bytes_def)

text \<open>\<open>String::from_utf8_lossy\<close>: every invalid sequence becomes one U+FFFD.\<close>

function utf8_lossy :: "bytes \<Rightarrow> bytes" where
  "utf8_lossy bs =
     (case utf8_next bs of
        Utf8_End \<Rightarrow> []
      | Utf8_Char n \<Rightarrow> take n bs @ utf8_lossy (drop n bs)
      | Utf8_Bad None \<Rightarrow> [0xEF, 0xBF, 0xBD]
      | Utf8_Bad (Some n) \<Rightarrow> [0xEF, 0xBF, 0xBD] @ utf8_lossy (drop n bs))"
  by pat_completeness auto
termination
proof (relation "measure length", goal_cases)
  case (2 bs n)
  then show ?case by (auto dest: utf8_next_char)
next
  case (3 bs x n)
  then have "utf8_next bs = Utf8_Bad (Some n)" by simp
  then show ?case
    using utf8_next_bad [of bs n] utf8_next_bad_nonempty [of bs "Some n"] by (cases bs) auto
qed simp

declare utf8_lossy.simps [simp del]

text \<open>The characters of a string, each as its bytes.\<close>

function utf8_chars :: "bytes \<Rightarrow> bytes list" where
  "utf8_chars bs =
     (case utf8_next bs of
        Utf8_Char n \<Rightarrow> take n bs # utf8_chars (drop n bs)
      | _ \<Rightarrow> [])"
  by pat_completeness auto
termination
  by (relation "measure length") (auto dest: utf8_next_char)

declare utf8_chars.simps [simp del]

lemma utf8_lossy_Nil [simp]: "utf8_lossy [] = []"
  by (simp add: utf8_lossy.simps)

lemma utf8_lossy_valid: "utf8_scan pos bs = None \<Longrightarrow> utf8_lossy bs = bs"
proof (induction pos bs rule: utf8_scan.induct)
  case (1 pos bs)
  then show ?case
    by (cases "utf8_next bs") (auto simp: utf8_scan.simps [of pos] utf8_lossy.simps [of bs])
qed

lemma utf8_chars_ascii:
  "\<forall>b \<in> set bs. b < 0x80 \<Longrightarrow> utf8_chars bs = map (\<lambda>b. [b]) bs"
proof (induction bs)
  case Nil
  then show ?case by (simp add: utf8_chars.simps)
next
  case (Cons b bs)
  then show ?case by (subst utf8_chars.simps) (simp add: utf8_next_ascii)
qed


lemma utf8_scan_append:
  "utf8_scan pos bs = None \<Longrightarrow> utf8_scan pos (bs @ cs) = utf8_scan (pos + length bs) cs"
proof (induction pos bs rule: utf8_scan.induct)
  case (1 pos bs)
  show ?case
  proof (cases "utf8_next bs")
    case Utf8_End
    then show ?thesis by simp
  next
    case (Utf8_Char n)
    with "1.prems" have scan: "utf8_scan (pos + n) (drop n bs) = None"
      by (simp add: utf8_scan.simps [of pos bs])
    have n: "n \<le> length bs" using Utf8_Char by (auto dest: utf8_next_char)
    have "utf8_scan pos (bs @ cs) = utf8_scan (pos + n) (drop n bs @ cs)"
      using utf8_next_append [OF Utf8_Char, of cs] n by (simp add: utf8_scan.simps [of pos])
    also have "\<dots> = utf8_scan (pos + n + length (drop n bs)) cs"
      by (rule "1.IH" [OF Utf8_Char scan])
    finally show ?thesis using n by simp
  next
    case (Utf8_Bad x)
    with "1.prems" show ?thesis by (simp add: utf8_scan.simps [of pos bs])
  qed
qed

lemma utf8_scan_pos: "utf8_scan pos bs = None \<longleftrightarrow> utf8_scan 0 bs = None"
proof -
  have "utf8_scan p bs = None \<Longrightarrow> utf8_scan q bs = None" for p q
  proof (induction p bs arbitrary: q rule: utf8_scan.induct)
    case (1 p bs)
    then show ?case
      by (cases "utf8_next bs") (auto simp: utf8_scan.simps [of p] utf8_scan.simps [of q])
  qed
  then show ?thesis by blast
qed

lemma utf8_valid_append: "utf8_valid s \<Longrightarrow> utf8_valid t \<Longrightarrow> utf8_valid (s @ t)"
  by (simp add: utf8_valid_def utf8_scan_append utf8_scan_pos [of "length s"])

section \<open>Searching, stripping and splitting\<close>

definition strip_prefix :: "string \<Rightarrow> string \<Rightarrow> string option" where
  "strip_prefix p s = (if prefix p s then Some (drop (length p) s) else None)"

definition strip_suffix :: "string \<Rightarrow> string \<Rightarrow> string option" where
  "strip_suffix q s = (if suffix q s then Some (take (length s - length q) s) else None)"

text \<open>\<open>str::split_once\<close> and \<open>str::rfind\<close> for a one-byte pattern, and \<open>str::contains\<close>.\<close>

definition split_once :: "char \<Rightarrow> string \<Rightarrow> (string \<times> string) option" where
  "split_once c s =
     (case dropWhile (\<lambda>x. x \<noteq> c) s of
        [] \<Rightarrow> None
      | _ # r \<Rightarrow> Some (takeWhile (\<lambda>x. x \<noteq> c) s, r))"

definition rfind :: "char \<Rightarrow> string \<Rightarrow> nat option" where
  "rfind c s =
     (if c \<in> set s then Some (length s - 1 - length (takeWhile (\<lambda>x. x \<noteq> c) (rev s))) else None)"

definition contains :: "string \<Rightarrow> string \<Rightarrow> bool" where
  "contains pat s \<longleftrightarrow> sublist pat s"

lemma strip_prefix_append [simp]: "strip_prefix p (p @ s) = Some s"
  by (simp add: strip_prefix_def)

lemma strip_prefix_eq_Some: "strip_prefix p s = Some r \<longleftrightarrow> s = p @ r"
  by (auto simp: strip_prefix_def elim: prefixE)

lemma strip_prefix_eq_None: "strip_prefix p s = None \<longleftrightarrow> \<not> prefix p s"
  by (simp add: strip_prefix_def)

lemma strip_suffix_append [simp]: "strip_suffix q (s @ q) = Some s"
  by (simp add: strip_suffix_def suffix_def)

lemma strip_suffix_eq_Some: "strip_suffix q s = Some r \<longleftrightarrow> s = r @ q"
  by (auto simp: strip_suffix_def suffix_def)

lemma strip_suffix_eq_None: "strip_suffix q s = None \<longleftrightarrow> \<not> suffix q s"
  by (simp add: strip_suffix_def)

lemma takeWhile_before: "c \<notin> set a \<Longrightarrow> takeWhile (\<lambda>x. x \<noteq> c) (a @ c # b) = a"
  by (induction a) auto

lemma takeWhile_absent: "c \<notin> set a \<Longrightarrow> takeWhile (\<lambda>x. x \<noteq> c) a = a"
  by (induction a) auto

lemma dropWhile_before: "c \<notin> set a \<Longrightarrow> dropWhile (\<lambda>x. x \<noteq> c) (a @ c # b) = c # b"
  by (induction a) auto

lemma dropWhile_absent: "dropWhile (\<lambda>x. x \<noteq> c) a = [] \<longleftrightarrow> c \<notin> set a"
  by (induction a) auto

lemma split_once_eq_Some:
  "split_once c s = Some (a, b) \<longleftrightarrow> s = a @ c # b \<and> c \<notin> set a"
proof
  assume h: "split_once c s = Some (a, b)"
  then obtain x where x: "dropWhile (\<lambda>x. x \<noteq> c) s = x # b" and a: "a = takeWhile (\<lambda>x. x \<noteq> c) s"
    by (auto simp: split_once_def split: list.splits)
  from x have "x = c" by (simp add: dropWhile_eq_Cons_conv)
  moreover have "s = takeWhile (\<lambda>x. x \<noteq> c) s @ dropWhile (\<lambda>x. x \<noteq> c) s" by simp
  ultimately show "s = a @ c # b \<and> c \<notin> set a"
    using x a by (auto dest: set_takeWhileD)
next
  assume "s = a @ c # b \<and> c \<notin> set a"
  then have "dropWhile (\<lambda>x. x \<noteq> c) s = c # b" and "takeWhile (\<lambda>x. x \<noteq> c) s = a"
    by (auto intro: dropWhile_before takeWhile_before)
  then show "split_once c s = Some (a, b)"
    by (simp add: split_once_def)
qed

lemma split_once_eq_None: "split_once c s = None \<longleftrightarrow> c \<notin> set s"
  unfolding dropWhile_absent [symmetric]
  by (cases "dropWhile (\<lambda>x. x \<noteq> c) s") (simp_all add: split_once_def del: dropWhile_eq_Nil_conv)

lemma rfind_eq_None: "rfind c s = None \<longleftrightarrow> c \<notin> set s"
  by (simp add: rfind_def)

lemma rfind_last: "c \<notin> set b \<Longrightarrow> rfind c (a @ c # b) = Some (length a)"
  by (simp add: rfind_def takeWhile_before)

lemma rfind_eq_Some:
  "rfind c s = Some n \<longleftrightarrow> (\<exists>a b. s = a @ c # b \<and> c \<notin> set b \<and> n = length a)"
proof
  assume h: "rfind c s = Some n"
  then have "c \<in> set s" by (simp add: rfind_def split: if_splits)
  then obtain a b where "s = a @ c # b" "c \<notin> set b" by (meson split_list_last)
  with h show "\<exists>a b. s = a @ c # b \<and> c \<notin> set b \<and> n = length a"
    by (auto simp: rfind_last)
qed (auto simp: rfind_last)

lemma split_last_unique:
  fixes c :: char
  assumes "a @ c # b = a' @ c # b'" "c \<notin> set b" "c \<notin> set b'"
  shows "a = a' \<and> b = b'"
proof -
  have "Some (length a) = Some (length a')"
    using rfind_last [OF assms(2), of a] rfind_last [OF assms(3), of a'] assms(1) by simp
  with assms(1) show ?thesis by simp
qed

lemma split_first_unique:
  fixes c :: char
  assumes "a @ c # b = a' @ c # b'" "c \<notin> set a" "c \<notin> set a'"
  shows "a = a' \<and> b = b'"
  using takeWhile_before [OF assms(2), of b] takeWhile_before [OF assms(3), of b'] assms(1)
  by simp

text \<open>
  \<open>str::split_whitespace\<close>: the maximal runs of characters without Unicode's
  \<open>White_Space\<close> property, over the string's characters.
\<close>

definition is_whitespace :: "bytes \<Rightarrow> bool" where
  "is_whitespace ch \<longleftrightarrow>
     ch \<in> {[9], [10], [11], [12], [13], [32], [0xC2, 0x85], [0xC2, 0xA0], [0xE1, 0x9A, 0x80],
           [0xE2, 0x80, 0x80], [0xE2, 0x80, 0x81], [0xE2, 0x80, 0x82], [0xE2, 0x80, 0x83],
           [0xE2, 0x80, 0x84], [0xE2, 0x80, 0x85], [0xE2, 0x80, 0x86], [0xE2, 0x80, 0x87],
           [0xE2, 0x80, 0x88], [0xE2, 0x80, 0x89], [0xE2, 0x80, 0x8A], [0xE2, 0x80, 0xA8],
           [0xE2, 0x80, 0xA9], [0xE2, 0x80, 0xAF], [0xE2, 0x81, 0x9F], [0xE3, 0x80, 0x80]}"

fun split_runs :: "('a \<Rightarrow> bool) \<Rightarrow> 'a list \<Rightarrow> 'a list \<Rightarrow> 'a list list" where
  "split_runs sep cur [] = (if cur = [] then [] else [cur])"
| "split_runs sep cur (x # xs) =
     (if sep x then (if cur = [] then split_runs sep [] xs else cur # split_runs sep [] xs)
      else split_runs sep (cur @ [x]) xs)"

definition split_whitespace :: "string \<Rightarrow> string list" where
  "split_whitespace s =
     map (string_of \<circ> concat) (split_runs is_whitespace [] (utf8_chars (as_bytes s)))"

lemma split_runs_run:
  "\<forall>x \<in> set xs. \<not> sep x \<Longrightarrow> split_runs sep cur (xs @ ys) = split_runs sep (cur @ xs) ys"
  by (induction xs arbitrary: cur) auto

text \<open>ASCII words separated by single spaces are split back into the words.\<close>

fun join_spaces :: "string list \<Rightarrow> string" where
  "join_spaces [] = []"
| "join_spaces [w] = w"
| "join_spaces (w # ws) = w @ CHR '' '' # join_spaces ws"

definition ascii_word :: "string \<Rightarrow> bool" where
  "ascii_word w \<longleftrightarrow> w \<noteq> [] \<and> (\<forall>c \<in> set w. 32 < (of_char c :: u8) \<and> (of_char c :: u8) < 0x80)"

lemma is_whitespace_single: "is_whitespace [b] \<longleftrightarrow> b \<in> {9, 10, 11, 12, 13, 32}"
  by (simp add: is_whitespace_def)

lemma not_whitespace_single: "32 < b \<Longrightarrow> \<not> is_whitespace [b]"
  by (auto simp: is_whitespace_single)

lemma split_runs_word:
  "ascii_word w \<Longrightarrow>
   split_runs is_whitespace cur (map (\<lambda>b. [b]) (as_bytes w) @ xs) =
   split_runs is_whitespace (cur @ map (\<lambda>b. [b]) (as_bytes w)) xs"
  by (rule split_runs_run) (auto simp: ascii_word_def as_bytes_def not_whitespace_single)

lemma split_runs_join:
  "\<forall>w \<in> set ws. ascii_word w \<Longrightarrow>
   split_runs is_whitespace [] (map (\<lambda>b. [b]) (as_bytes (join_spaces ws))) =
   map (\<lambda>w. map (\<lambda>b. [b]) (as_bytes w)) ws"
proof (induction ws rule: join_spaces.induct)
  case (2 w)
  then show ?case
    using split_runs_word [of w "[]" "[]"] by (simp add: ascii_word_def as_bytes_def)
next
  case (3 w v ws)
  have "is_whitespace [of_char CHR '' '']" by (simp add: is_whitespace_single)
  with 3 show ?case
    using split_runs_word [of w "[]"] by (simp add: ascii_word_def as_bytes_def)
qed simp

lemma ascii_word_bytes: "ascii_word w \<Longrightarrow> \<forall>b \<in> set (as_bytes w). b < 0x80"
  unfolding ascii_word_def as_bytes_def set_map by blast

lemma ascii_join_spaces:
  "\<forall>w \<in> set ws. ascii_word w \<Longrightarrow> \<forall>b \<in> set (as_bytes (join_spaces ws)). b < 0x80"
  by (induction ws rule: join_spaces.induct) (auto dest: ascii_word_bytes)

lemma split_whitespace_join:
  "\<forall>w \<in> set ws. ascii_word w \<Longrightarrow> split_whitespace (join_spaces ws) = ws"
  by (simp add: split_whitespace_def utf8_chars_ascii [OF ascii_join_spaces] split_runs_join
      comp_def concat_map_singleton)

end
