(* ===== verification/RustNum.thy ===== *)
theory RustNum
  imports RustStr
begin

text \<open>
  Decimal and hexadecimal text as Rust's standard library prints and parses it: \<open>to_string\<close>
  of an unsigned integer, \<open>str::parse\<close> into an unsigned or signed integer of a given range,
  the \<open>{:02x}\<close> format of a byte, and \<open>u8::is_ascii_hexdigit\<close>.
\<close>

section \<open>Decimal\<close>

definition digit_char :: "nat \<Rightarrow> char" where
  "digit_char d = char_of (48 + d)"

definition char_digit :: "char \<Rightarrow> nat option" where
  "char_digit c =
     (let n = (of_char c :: nat) in if 48 \<le> n \<and> n \<le> 57 then Some (n - 48) else None)"

fun show_nat :: "nat \<Rightarrow> string" where
  "show_nat n =
     (if n < 10 then [digit_char n] else show_nat (n div 10) @ [digit_char (n mod 10)])"

declare show_nat.simps [simp del]

fun parse_digits :: "nat \<Rightarrow> string \<Rightarrow> nat option" where
  "parse_digits acc [] = Some acc"
| "parse_digits acc (c # s) =
     (case char_digit c of None \<Rightarrow> None | Some d \<Rightarrow> parse_digits (10 * acc + d) s)"

text \<open>
  \<open>from_str_radix\<close> for an unsigned type whose largest value is \<open>mx\<close>: an optional plus
  sign, at least one digit, and no overflow. Every failure is an error, here \<open>None\<close>.
\<close>

definition parse_uint :: "nat \<Rightarrow> string \<Rightarrow> nat option" where
  "parse_uint mx s =
     (let ds = (case s of [] \<Rightarrow> [] | c # r \<Rightarrow> if c = CHR ''+'' then r else s) in
      if ds = [] then None
      else case parse_digits 0 ds of
        None \<Rightarrow> None
      | Some n \<Rightarrow> if n \<le> mx then Some n else None)"

text \<open>The signed case takes a minus sign too.\<close>

definition parse_i64 :: "string \<Rightarrow> int option" where
  "parse_i64 s =
     (case s of
        [] \<Rightarrow> None
      | c # r \<Rightarrow>
          (if c = CHR ''-'' then map_option (\<lambda>n. - int n) (if r = [] then None else
             (case parse_digits 0 r of None \<Rightarrow> None | Some n \<Rightarrow> if n \<le> 2 ^ 63 then Some n else None))
           else map_option int (parse_uint (2 ^ 63 - 1) s)))"

definition parse_u32 :: "string \<Rightarrow> u32 option" where
  "parse_u32 s = map_option of_nat (parse_uint (2 ^ 32 - 1) s)"

definition parse_u64 :: "string \<Rightarrow> u64 option" where
  "parse_u64 s = map_option of_nat (parse_uint (2 ^ 64 - 1) s)"

definition show_u32 :: "u32 \<Rightarrow> string" where
  "show_u32 w = show_nat (unat w)"

definition show_u64 :: "u64 \<Rightarrow> string" where
  "show_u64 w = show_nat (unat w)"

definition show_int :: "int \<Rightarrow> string" where
  "show_int i = (if i < 0 then CHR ''-'' # show_nat (nat (- i)) else show_nat (nat i))"

lemma of_char_digit_char: "d < 10 \<Longrightarrow> (of_char (digit_char d) :: nat) = 48 + d"
  by (simp add: digit_char_def of_char_of)

lemma char_digit_digit_char [simp]: "d < 10 \<Longrightarrow> char_digit (digit_char d) = Some d"
  by (simp add: char_digit_def of_char_digit_char)

lemma parse_digits_append:
  "parse_digits acc (s @ t) =
     (case parse_digits acc s of None \<Rightarrow> None | Some n \<Rightarrow> parse_digits n t)"
  by (induction acc s rule: parse_digits.induct) (auto split: option.splits)

lemma parse_digits_show_nat: "parse_digits 0 (show_nat n) = Some n"
proof (induction n rule: show_nat.induct)
  case (1 n)
  show ?case
  proof (cases "n < 10")
    case True
    then show ?thesis by (simp add: show_nat.simps)
  next
    case False
    with 1 have "parse_digits 0 (show_nat (n div 10)) = Some (n div 10)" by simp
    with False show ?thesis by (subst show_nat.simps) (simp add: parse_digits_append)
  qed
qed

lemma show_nat_nonempty [simp]: "show_nat n \<noteq> []"
  by (subst show_nat.simps) simp

lemma show_nat_digits: "c \<in> set (show_nat n) \<Longrightarrow> \<exists>d < 10. c = digit_char d"
proof (induction n rule: show_nat.induct)
  case (1 n)
  then show ?case
    by (cases "n < 10") (auto simp: show_nat.simps [of n] intro: exI [of _ "n mod 10"])
qed

lemma show_nat_digit_range:
  assumes "c \<in> set (show_nat n)"
  shows "48 \<le> (of_char c :: nat) \<and> (of_char c :: nat) \<le> 57"
  using show_nat_digits [OF assms] by (auto simp: of_char_digit_char)

lemma not_in_show_nat:
  "(of_char c :: nat) < 48 \<or> 57 < (of_char c :: nat) \<Longrightarrow> c \<notin> set (show_nat n)"
  using show_nat_digit_range by fastforce

lemma show_nat_hd_not_plus: "show_nat n = c # r \<Longrightarrow> c \<noteq> CHR ''+'' \<and> c \<noteq> CHR ''-''"
  using not_in_show_nat [of "CHR ''+''" n] not_in_show_nat [of "CHR ''-''" n] by auto

lemma parse_uint_show_nat: "n \<le> mx \<Longrightarrow> parse_uint mx (show_nat n) = Some n"
  using show_nat_hd_not_plus [of n] parse_digits_show_nat [of n]
  by (cases "show_nat n") (auto simp: parse_uint_def Let_def)

lemma parse_u32_show [simp]: "parse_u32 (show_u32 w) = Some w"
  using unat_u32_less [of w] by (simp add: parse_u32_def show_u32_def parse_uint_show_nat)

lemma parse_u64_show [simp]: "parse_u64 (show_u64 w) = Some w"
  using unat_u64_less [of w] by (simp add: parse_u64_def show_u64_def parse_uint_show_nat)

lemma parse_i64_show_int:
  assumes "- (2 ^ 63) \<le> i" and "i < 2 ^ 63"
  shows "parse_i64 (show_int i) = Some i"
proof (cases "i < 0")
  case True
  with assms show ?thesis by (simp add: show_int_def parse_i64_def parse_digits_show_nat)
next
  case False
  obtain c r where cr: "show_nat (nat i) = c # r" by (cases "show_nat (nat i)") auto
  then have "c \<noteq> CHR ''-''" using show_nat_hd_not_plus by blast
  moreover have "parse_uint (2 ^ 63 - 1) (c # r) = Some (nat i)"
    unfolding cr [symmetric] using assms by (intro parse_uint_show_nat) simp
  ultimately show ?thesis using False cr by (simp add: show_int_def parse_i64_def)
qed

lemma show_nat_inj: "show_nat m = show_nat n \<Longrightarrow> m = n"
  by (metis parse_digits_show_nat option.inject)

lemma show_u64_inj: "show_u64 v = show_u64 w \<longleftrightarrow> v = w"
  by (metis parse_u64_show option.inject)

section \<open>Hexadecimal\<close>

definition hex_digit :: "nat \<Rightarrow> char" where
  "hex_digit d = (if d < 10 then char_of (48 + d) else char_of (87 + d))"

text \<open>The format \<open>{b:02x}\<close>: two lower-case digits.\<close>

definition hex2 :: "u8 \<Rightarrow> string" where
  "hex2 b = [hex_digit (unat b div 16), hex_digit (unat b mod 16)]"

definition is_ascii_hexdigit :: "char \<Rightarrow> bool" where
  "is_ascii_hexdigit c \<longleftrightarrow>
     (let n = (of_char c :: nat)
      in 48 \<le> n \<and> n \<le> 57 \<or> 65 \<le> n \<and> n \<le> 70 \<or> 97 \<le> n \<and> n \<le> 102)"

lemma of_char_hex_digit:
  "d < 16 \<Longrightarrow> (of_char (hex_digit d) :: nat) = (if d < 10 then 48 + d else 87 + d)"
  by (simp add: hex_digit_def of_char_of)

lemma is_ascii_hexdigit_hex_digit [simp]: "d < 16 \<Longrightarrow> is_ascii_hexdigit (hex_digit d)"
  by (simp add: is_ascii_hexdigit_def Let_def of_char_hex_digit)

lemma hex_digit_inj:
  assumes "d < 16" "e < 16"
  shows "hex_digit d = hex_digit e \<longleftrightarrow> d = e"
proof
  assume "hex_digit d = hex_digit e"
  then have "(of_char (hex_digit d) :: nat) = of_char (hex_digit e)" by simp
  then have "(if d < 10 then 48 + d else 87 + d) = (if e < 10 then 48 + e else 87 + e)"
    unfolding of_char_hex_digit [OF assms(1)] of_char_hex_digit [OF assms(2)] .
  then show "d = e" by (simp split: if_splits)
qed simp

lemma length_hex2 [simp]: "length (hex2 b) = 2"
  by (simp add: hex2_def)

lemma hex2_nibbles: "unat (b :: u8) div 16 < 16 \<and> unat b mod 16 < 16"
  using unat_u8_less [of b] by auto

lemma hex2_hexdigits: "c \<in> set (hex2 b) \<Longrightarrow> is_ascii_hexdigit c"
  using hex2_nibbles [of b] by (auto simp: hex2_def)

lemma hex2_inj: "hex2 a = hex2 b \<longleftrightarrow> a = b"
proof
  assume "hex2 a = hex2 b"
  then have "unat a div 16 = unat b div 16" and "unat a mod 16 = unat b mod 16"
    using hex2_nibbles [of a] hex2_nibbles [of b] by (simp_all add: hex2_def hex_digit_inj)
  then have "unat a = unat b" by (metis div_mult_mod_eq)
  then show "a = b" by (rule unsigned_word_eqI)
qed simp

end
