(* ===== verification/NetError.thy ===== *)
theory NetError
  imports RustNum
begin

text \<open>
  The umbrella error of the transports (\<open>error.rs\<close>) and the values it carries. An error
  message is kept as its format string with the arguments in place, not rendered: \<open>Lit\<close> is
  literal text of the format, \<open>Disp\<close> an argument printed with \<open>{}\<close>, \<open>DbgStr\<close> a string
  argument printed with \<open>{:?}\<close>, and \<open>Dbg\<close> the text a type's derived \<open>Debug\<close> produced.
\<close>

datatype frag = Lit string | Disp string | DbgStr string | Dbg string

type_synonym msg = "frag list"

text \<open>
  \<open>std::io::Error\<close>: its kind (\<open>NotFound\<close> and \<open>Other\<close> are the ones the code looks at or
  makes; every other \<open>ErrorKind\<close> is a numbered one) and its text.
\<close>

datatype io_kind = NotFound | Other | Kind nat

record io_error =
  kind :: io_kind
  io_text :: string

text \<open>\<open>std::io::Error::other\<close>.\<close>

definition io_other :: "string \<Rightarrow> io_error" where
  "io_other s = \<lparr>kind = Other, io_text = s\<rparr>"

datatype net_error =
    Io io_error
  | Protocol msg
  | Auth msg
  | Remote msg
  | Envelope msg
  | Timeout
  | Unsupported string
  | BadLocation msg

text \<open>The \<open>Display\<close> text \<open>thiserror\<close> derives from the attribute of each variant.\<close>

fun net_display :: "net_error \<Rightarrow> msg" where
  "net_display (Io e) = [Lit ''I/O error: '', Disp (io_text e)]"
| "net_display (Protocol m) = Lit ''protocol error: '' # m"
| "net_display (Auth m) = Lit ''authentication failed: '' # m"
| "net_display (Remote m) = Lit ''remote error: '' # m"
| "net_display (Envelope m) = Lit ''envelope decode: '' # m"
| "net_display Timeout = [Lit ''timeout'']"
| "net_display (Unsupported s) = [Lit ''operation not supported over this transport: '', Disp s]"
| "net_display (BadLocation m) = Lit ''malformed location: '' # m"

end
