(* ===== verification/Location.thy ===== *)
theory Location
  imports NetError
begin

text \<open>
  Tenant addresses (\<open>location.rs\<close>): the \<open>TenantLocation\<close> enum and \<open>parse_location\<close>, with
  a declarative grammar of the addresses it accepts. The lemmas show that the parser accepts
  exactly the addresses of the grammar, each as the location the grammar gives it, and say
  which error every other input gets.
\<close>

section \<open>The code\<close>

datatype tenant_location =
    Path string
  | Resp3 string "(string \<times> string) option"
  | Http string "string option"

text \<open>The part of \<open>parse_location\<close> after the \<open>resp3://\<close> prefix.\<close>

definition parse_resp3 :: "string \<Rightarrow> net_error + tenant_location" where
  "parse_resp3 rest =
     res_bind
       (case rfind CHR ''@'' rest of
          Some at \<Rightarrow>
            (let creds = take at rest; hp = drop 1 (drop at rest) in
             case split_once CHR '':'' creds of
               Some (u, p) \<Rightarrow> Ok (Some (u, p), hp)
             | None \<Rightarrow> Err (BadLocation
                 [Lit ''resp3 credentials must be user:pass, got '', DbgStr creds]))
        | None \<Rightarrow> Ok (None, rest))
       (\<lambda>(auth, hostport).
          if hostport = [] then Err (BadLocation [Lit ''resp3:// missing host:port''])
          else Ok (Resp3 hostport auth))"

definition parse_location :: "string \<Rightarrow> net_error + tenant_location" where
  "parse_location s =
     (case strip_prefix ''file://'' s of
        Some rest \<Rightarrow> Ok (Path rest)
      | None \<Rightarrow>
     (case strip_prefix ''resp3://'' s of
        Some rest \<Rightarrow> parse_resp3 rest
      | None \<Rightarrow>
     (if prefix ''http://'' s \<or> prefix ''https://'' s then Ok (Http s None)
      else if contains ''://'' s then Err (BadLocation [Lit ''unknown scheme in '', DbgStr s])
      else Ok (Path s))))"

section \<open>The grammar of addresses\<close>

inductive resp3_address :: "string \<Rightarrow> string \<Rightarrow> (string \<times> string) option \<Rightarrow> bool" where
  plain: "hp \<noteq> [] \<Longrightarrow> CHR ''@'' \<notin> set hp \<Longrightarrow> resp3_address hp hp None"
| creds: "hp \<noteq> [] \<Longrightarrow> CHR ''@'' \<notin> set hp \<Longrightarrow> CHR '':'' \<notin> set u \<Longrightarrow>
    resp3_address (u @ '':'' @ p @ ''@'' @ hp) hp (Some (u, p))"

inductive address :: "string \<Rightarrow> tenant_location \<Rightarrow> bool" where
  addr_file: "address (''file://'' @ p) (Path p)"
| addr_resp3: "resp3_address a hp auth \<Longrightarrow> address (''resp3://'' @ a) (Resp3 hp auth)"
| addr_http: "address (''http://'' @ r) (Http (''http://'' @ r) None)"
| addr_https: "address (''https://'' @ r) (Http (''https://'' @ r) None)"
| addr_bare: "\<not> sublist ''://'' s \<Longrightarrow> address s (Path s)"

section \<open>Lemmas\<close>

lemma parse_resp3_plain:
  "CHR ''@'' \<notin> set a \<Longrightarrow> parse_resp3 a =
     (if a = [] then Err (BadLocation [Lit ''resp3:// missing host:port'']) else Ok (Resp3 a None))"
  by (simp add: parse_resp3_def rfind_eq_None [THEN iffD2])

lemma parse_resp3_at:
  "CHR ''@'' \<notin> set hp \<Longrightarrow> parse_resp3 (cr @ CHR ''@'' # hp) =
     (case split_once CHR '':'' cr of
        None \<Rightarrow> Err (BadLocation [Lit ''resp3 credentials must be user:pass, got '', DbgStr cr])
      | Some (u, p) \<Rightarrow>
          if hp = [] then Err (BadLocation [Lit ''resp3:// missing host:port''])
          else Ok (Resp3 hp (Some (u, p))))"
  by (simp add: parse_resp3_def rfind_last Let_def split: option.splits)

lemma split_last_at:
  obtains (no_at) "CHR ''@'' \<notin> set a"
    | (at) cr hp where "a = cr @ CHR ''@'' # hp" "CHR ''@'' \<notin> set hp"
  by (meson split_list_last)

lemma parse_resp3_complete: "resp3_address a hp auth \<Longrightarrow> parse_resp3 a = Ok (Resp3 hp auth)"
proof (induction rule: resp3_address.induct)
  case (plain hp)
  then show ?case by (simp add: parse_resp3_plain)
next
  case (creds hp u p)
  have "split_once CHR '':'' (u @ CHR '':'' # p) = Some (u, p)"
    using creds by (simp add: split_once_eq_Some)
  with creds show ?case using parse_resp3_at [of hp "u @ CHR '':'' # p"] by simp
qed

lemma parse_resp3_sound:
  assumes "parse_resp3 a = Ok loc"
  shows "\<exists>hp auth. loc = Resp3 hp auth \<and> resp3_address a hp auth"
proof (cases a rule: split_last_at)
  case no_at
  with assms show ?thesis
    by (auto simp: parse_resp3_plain split: if_splits intro: resp3_address.plain)
next
  case (at cr hp)
  with assms obtain u p where "cr = u @ CHR '':'' # p" "CHR '':'' \<notin> set u" "hp \<noteq> []"
      "loc = Resp3 hp (Some (u, p))"
    by (auto simp: parse_resp3_at split_once_eq_Some split: option.splits if_splits)
  with at show ?thesis using resp3_address.creds [of hp u p] by auto
qed

lemma parse_resp3_iff:
  "parse_resp3 a = Ok loc \<longleftrightarrow> (\<exists>hp auth. loc = Resp3 hp auth \<and> resp3_address a hp auth)"
  using parse_resp3_complete parse_resp3_sound by blast

lemma parse_resp3_errors:
  "parse_resp3 a = Err e \<longleftrightarrow>
     (\<exists>cr hp. a = cr @ ''@'' @ hp \<and> CHR ''@'' \<notin> set hp \<and> CHR '':'' \<notin> set cr \<and>
        e = BadLocation [Lit ''resp3 credentials must be user:pass, got '', DbgStr cr]) \<or>
     (a = [] \<or> (\<exists>cr. a = cr @ ''@'' \<and> CHR '':'' \<in> set cr)) \<and>
        e = BadLocation [Lit ''resp3:// missing host:port'']"
proof (cases a rule: split_last_at)
  case no_at
  then show ?thesis by (auto simp: parse_resp3_plain)
next
  case (at cr hp)
  have uniq: "a = c @ ''@'' @ h \<and> CHR ''@'' \<notin> set h \<longleftrightarrow> c = cr \<and> h = hp" for c h
    using at split_last_unique [of cr "CHR ''@''" hp c h] by auto
  have uniq': "a = c @ ''@'' \<longleftrightarrow> c = cr \<and> hp = []" for c
    using uniq [of c "[]"] by auto
  have "(\<exists>c h. a = c @ ''@'' @ h \<and> CHR ''@'' \<notin> set h \<and> CHR '':'' \<notin> set c \<and> Q c) \<longleftrightarrow>
      CHR '':'' \<notin> set cr \<and> Q cr" for Q
    using uniq by blast
  moreover have "(\<exists>c. a = c @ ''@'' \<and> CHR '':'' \<in> set c) \<longleftrightarrow> hp = [] \<and> CHR '':'' \<in> set cr"
    unfolding uniq' by blast
  moreover have "a \<noteq> []" using at by simp
  moreover have "parse_resp3 a = Err e \<longleftrightarrow>
      (CHR '':'' \<notin> set cr \<and>
        e = BadLocation [Lit ''resp3 credentials must be user:pass, got '', DbgStr cr]) \<or>
      (hp = [] \<and> CHR '':'' \<in> set cr) \<and> e = BadLocation [Lit ''resp3:// missing host:port'']"
  proof (cases "split_once CHR '':'' cr")
    case None
    then have "CHR '':'' \<notin> set cr" by (simp add: split_once_eq_None)
    with None show ?thesis unfolding at(1) parse_resp3_at [OF at(2)] by auto
  next
    case (Some up)
    then have "CHR '':'' \<in> set cr" by (cases up) (simp add: split_once_eq_Some)
    with Some show ?thesis unfolding at(1) parse_resp3_at [OF at(2)] by (cases up) auto
  qed
  ultimately show ?thesis by simp
qed

lemma sublist_scheme: "sublist ''://'' (w @ ''://'' @ r)"
  unfolding sublist_def by blast

lemma scheme_prefix:
  assumes "prefix p s" "p \<in> {''file://'', ''resp3://'', ''http://'', ''https://''}"
  shows "sublist ''://'' s"
proof -
  have "\<exists>w. p = w @ ''://''"
    using assms(2) by (auto intro: exI [of _ "''file''"] exI [of _ "''resp3''"]
      exI [of _ "''http''"] exI [of _ "''https''"])
  with assms(1) show ?thesis using sublist_scheme by (auto elim!: prefixE)
qed

text \<open>The four kinds of input, decided by the scheme.\<close>

lemma parse_location_simps:
  "parse_location (''file://'' @ r) = Ok (Path r)"
  "parse_location (''resp3://'' @ r) = parse_resp3 r"
  "parse_location (''http://'' @ r) = Ok (Http (''http://'' @ r) None)"
  "parse_location (''https://'' @ r) = Ok (Http (''https://'' @ r) None)"
  by (simp_all add: parse_location_def strip_prefix_def)

text \<open>The same facts with the literal spelled out, the form \<open>simp\<close> leaves behind.\<close>

lemmas parse_scheme = parse_location_simps parse_location_simps [unfolded append.simps]
lemmas address_intros =
  address.intros address.intros [unfolded append.simps]
  resp3_address.intros resp3_address.intros [unfolded append.simps]

lemma parse_location_bare: "\<not> sublist ''://'' s \<Longrightarrow> parse_location s = Ok (Path s)"
  using scheme_prefix [of _ s]
  by (fastforce simp: parse_location_def strip_prefix_def contains_def)

lemma scheme_cases:
  obtains (file_url) r where "s = ''file://'' @ r"
    | (resp3) r where "s = ''resp3://'' @ r"
    | (http) r where "s = ''http://'' @ r"
    | (https) r where "s = ''https://'' @ r"
    | (other) "\<not> prefix ''file://'' s" "\<not> prefix ''resp3://'' s" "\<not> prefix ''http://'' s"
        "\<not> prefix ''https://'' s"
  by (auto simp: prefix_def)

lemma parse_location_other:
  assumes "\<not> prefix ''file://'' s" "\<not> prefix ''resp3://'' s" "\<not> prefix ''http://'' s"
    "\<not> prefix ''https://'' s"
  shows "parse_location s =
    (if sublist ''://'' s then Err (BadLocation [Lit ''unknown scheme in '', DbgStr s])
     else Ok (Path s))"
  using assms by (simp add: parse_location_def strip_prefix_def contains_def)


lemma address_parses: "address s loc \<Longrightarrow> parse_location s = Ok loc"
  by (induction rule: address.induct)
    (simp_all add: parse_scheme parse_location_bare parse_resp3_complete)

lemma parses_address: "parse_location s = Ok loc \<Longrightarrow> address s loc"
proof (cases s rule: scheme_cases)
  case (file_url r)
  assume "parse_location s = Ok loc"
  with file_url show ?thesis by (auto simp: parse_scheme intro: address_intros)
next
  case (resp3 r)
  assume "parse_location s = Ok loc"
  with resp3 show ?thesis
    by (auto simp: parse_scheme parse_resp3_iff intro: address_intros)
next
  case (http r)
  assume "parse_location s = Ok loc"
  with http show ?thesis by (auto simp: parse_scheme intro: address_intros)
next
  case (https r)
  assume "parse_location s = Ok loc"
  with https show ?thesis by (auto simp: parse_scheme intro: address_intros)
next
  case other
  assume "parse_location s = Ok loc"
  with parse_location_other [OF other] show ?thesis
    by (auto split: if_splits intro: address_intros)
qed

section \<open>Properties\<close>

text \<open>The text of a location, where it has one (a bearer token has none).\<close>

fun render_location :: "tenant_location \<Rightarrow> string" where
  "render_location (Path p) = ''file://'' @ p"
| "render_location (Resp3 hp None) = ''resp3://'' @ hp"
| "render_location (Resp3 hp (Some (u, p))) = ''resp3://'' @ u @ '':'' @ p @ ''@'' @ hp"
| "render_location (Http b t) = b"

fun has_text :: "tenant_location \<Rightarrow> bool" where
  "has_text (Path p) = True"
| "has_text (Resp3 hp None) = (hp \<noteq> [] \<and> CHR ''@'' \<notin> set hp)"
| "has_text (Resp3 hp (Some (u, p))) =
     (hp \<noteq> [] \<and> CHR ''@'' \<notin> set hp \<and> CHR '':'' \<notin> set u)"
| "has_text (Http b t) = (t = None \<and> (prefix ''http://'' b \<or> prefix ''https://'' b))"

lemma render_address: "has_text loc \<Longrightarrow> address (render_location loc) loc"
proof (induction loc rule: has_text.induct)
  case (4 b t)
  then show ?case by (auto elim!: prefixE intro: address_intros)
qed (auto intro: address_intros)

text \<open>
  A location that can be written as text is parsed back from it, for passwords that contain
  colons and at-signs too.
\<close>

lemma parse_render_location: "has_text loc \<Longrightarrow> parse_location (render_location loc) = Ok loc"
  by (rule address_parses [OF render_address])

text \<open>
  The errors, exhaustively: RESP3 credentials without a colon, a RESP3 address with nothing
  after its credentials (or nothing at all), or a scheme separator under an unknown scheme.
\<close>

lemma parse_location_errors:
  "parse_location s = Err e \<longleftrightarrow>
     (\<exists>cr hp. s = ''resp3://'' @ cr @ ''@'' @ hp \<and> CHR ''@'' \<notin> set hp \<and> CHR '':'' \<notin> set cr \<and>
        e = BadLocation [Lit ''resp3 credentials must be user:pass, got '', DbgStr cr]) \<or>
     (s = ''resp3://'' \<or> (\<exists>cr. s = ''resp3://'' @ cr @ ''@'' \<and> CHR '':'' \<in> set cr)) \<and>
        e = BadLocation [Lit ''resp3:// missing host:port''] \<or>
     (sublist ''://'' s \<and> \<not> prefix ''file://'' s \<and> \<not> prefix ''resp3://'' s \<and>
      \<not> prefix ''http://'' s \<and> \<not> prefix ''https://'' s) \<and>
        e = BadLocation [Lit ''unknown scheme in '', DbgStr s]"
proof (cases s rule: scheme_cases)
  case (resp3 r)
  then have "parse_location s = Err e \<longleftrightarrow> parse_resp3 r = Err e"
    by (simp add: parse_scheme)
  then show ?thesis
    unfolding parse_resp3_errors using resp3 by simp
next
  case other
  then have no: "s \<noteq> ''resp3://'' @ x" for x by (auto simp: prefix_def)
  show ?thesis
    unfolding parse_location_other [OF other]
    using other no [of "[]"] no [of "_ @ ''@''"] no [of "_ @ ''@'' @ _"] by auto
qed (simp_all add: parse_scheme)

text \<open>
  C21: \<open>parse_location\<close> accepts exactly the addresses of the grammar: it returns a location
  if and only if the grammar relates the input to that location. So a file URL is a path, a
  RESP3 URL splits at its last at-sign and its first colon, an HTTP URL is kept whole and
  every other input without a scheme separator is a path. It refuses exactly RESP3 credentials
  without a colon, a RESP3 address with nothing after its credentials (or nothing at all), and
  a scheme separator under an unknown scheme, each with its own error.
\<close>

theorem parse_location_grammar:
  "(parse_location s = Ok loc \<longleftrightarrow> address s loc) \<and>
   (parse_location s = Err e \<longleftrightarrow>
     (\<exists>cr hp. s = ''resp3://'' @ cr @ ''@'' @ hp \<and> CHR ''@'' \<notin> set hp \<and> CHR '':'' \<notin> set cr \<and>
        e = BadLocation [Lit ''resp3 credentials must be user:pass, got '', DbgStr cr]) \<or>
     (s = ''resp3://'' \<or> (\<exists>cr. s = ''resp3://'' @ cr @ ''@'' \<and> CHR '':'' \<in> set cr)) \<and>
        e = BadLocation [Lit ''resp3:// missing host:port''] \<or>
     (sublist ''://'' s \<and> \<not> prefix ''file://'' s \<and> \<not> prefix ''resp3://'' s \<and>
      \<not> prefix ''http://'' s \<and> \<not> prefix ''https://'' s) \<and>
        e = BadLocation [Lit ''unknown scheme in '', DbgStr s])"
  by (rule conjI [OF _ parse_location_errors]) (blast intro: address_parses parses_address)

end
