(* ===== verification/Cursor.thy ===== *)
theory Cursor
  imports RustStr
begin

text \<open>
  The forward-only cursor of the envelope decoder (\<open>struct Cursor\<close> of \<open>envelope.rs\<close>) and
  the decoder's errors. The contract of a field of the binary layout, a writer and the
  cursor operation that reads it back, is the locale \<open>field\<close>: reading at the written bytes
  returns the value and moves past them, every successful read is of written bytes, and a
  buffer that ends inside the bytes is reported as truncated. Fields with a contract compose
  (\<open>field_seq\<close>), and the code's fixed-width, counted and text fields are its
  interpretations.
\<close>

section \<open>The code\<close>

datatype envelope_error =
    Json string
  | Truncated nat nat
  | InvalidMagic u8
  | CrcMismatch u32 u32
  | ReservedFlagsSet u8
  | ZstdDecompress string
  | TagNotUtf8 nat utf8_error

record cursor =
  buf :: bytes
  pos :: nat

definition cursor_new :: "bytes \<Rightarrow> cursor" where
  "cursor_new b = \<lparr>buf = b, pos = 0\<rparr>"

definition ensure :: "cursor \<Rightarrow> nat \<Rightarrow> envelope_error + unit" where
  "ensure c n =
     (if pos c + n > length (buf c) then Err (Truncated (pos c + n) (length (buf c))) else Ok ())"

definition read_u8 :: "cursor \<Rightarrow> envelope_error + u8 \<times> cursor" where
  "read_u8 c = res_bind (ensure c 1) (\<lambda>_. Ok (buf c ! pos c, c\<lparr>pos := pos c + 1\<rparr>))"

definition read_u16_le :: "cursor \<Rightarrow> envelope_error + u16 \<times> cursor" where
  "read_u16_le c =
     res_bind (ensure c 2) (\<lambda>_.
       Ok (u16_from_le (buf c ! pos c) (buf c ! (pos c + 1)), c\<lparr>pos := pos c + 2\<rparr>))"

definition read_u32_le :: "cursor \<Rightarrow> envelope_error + u32 \<times> cursor" where
  "read_u32_le c =
     res_bind (ensure c 4) (\<lambda>_.
       Ok (u32_from_le (buf c ! pos c) (buf c ! (pos c + 1)) (buf c ! (pos c + 2))
             (buf c ! (pos c + 3)),
           c\<lparr>pos := pos c + 4\<rparr>))"

definition read_bytes :: "nat \<Rightarrow> cursor \<Rightarrow> envelope_error + bytes \<times> cursor" where
  "read_bytes n c =
     res_bind (ensure c n) (\<lambda>_. Ok (take n (drop (pos c) (buf c)), c\<lparr>pos := pos c + n\<rparr>))"

section \<open>The contract of a field\<close>

text \<open>What is left to read, and the cursor after \<open>n\<close> more bytes.\<close>

definition left :: "cursor \<Rightarrow> bytes" where
  "left c = drop (pos c) (buf c)"

definition adv :: "nat \<Rightarrow> cursor \<Rightarrow> cursor" where
  "adv n c = c\<lparr>pos := pos c + n\<rparr>"

definition in_buf :: "cursor \<Rightarrow> bool" where
  "in_buf c \<longleftrightarrow> pos c \<le> length (buf c)"

lemma left_adv [simp]: "left (adv n c) = drop n (left c)"
  by (simp add: left_def adv_def add.commute)

lemma buf_adv [simp]: "buf (adv n c) = buf c"
  by (simp add: adv_def)

lemma pos_adv [simp]: "pos (adv n c) = pos c + n"
  by (simp add: adv_def)

lemma adv_adv [simp]: "adv n (adv m c) = adv (m + n) c"
  by (simp add: adv_def add.assoc)

lemma adv_0 [simp]: "adv 0 c = c"
  by (simp add: adv_def)

lemma length_left: "length (left c) = length (buf c) - pos c"
  by (simp add: left_def)

lemma in_buf_adv: "in_buf c \<Longrightarrow> n \<le> length (left c) \<Longrightarrow> in_buf (adv n c)"
  by (auto simp: in_buf_def length_left)

lemma in_buf_new [simp]: "in_buf (cursor_new b)"
  by (simp add: in_buf_def cursor_new_def)

lemma left_new [simp]: "left (cursor_new b) = b"
  by (simp add: left_def cursor_new_def)

lemma buf_new [simp]: "buf (cursor_new b) = b" and pos_new [simp]: "pos (cursor_new b) = 0"
  by (simp_all add: cursor_new_def)

lemma ensure_left:
  "in_buf c \<Longrightarrow> ensure c n =
     (if n \<le> length (left c) then Ok () else Err (Truncated (pos c + n) (length (buf c))))"
  by (auto simp: ensure_def in_buf_def length_left)

lemma nth_left: "in_buf c \<Longrightarrow> i < length (left c) \<Longrightarrow> buf c ! (pos c + i) = left c ! i"
  by (simp add: left_def in_buf_def)

text \<open>\<open>cut c\<close> holds of the errors that say the buffer ended too early.\<close>

definition cut :: "cursor \<Rightarrow> envelope_error \<Rightarrow> bool" where
  "cut c e \<longleftrightarrow> (\<exists>k > length (buf c). e = Truncated k (length (buf c)))"

lemma cut_adv [simp]: "cut (adv n c) = cut c"
  by (simp add: cut_def fun_eq_iff)

locale field =
  fixes wr :: "'a \<Rightarrow> bytes"
    and rd :: "cursor \<Rightarrow> envelope_error + 'a \<times> cursor"
    and ok :: "'a \<Rightarrow> bool"
  assumes rd_wr: "in_buf c \<Longrightarrow> left c = wr x @ r \<Longrightarrow> ok x \<Longrightarrow> rd c = Ok (x, adv (length (wr x)) c)"
    and rd_Ok: "in_buf c \<Longrightarrow> rd c = Ok (x, c') \<Longrightarrow>
      ok x \<and> c' = adv (length (wr x)) c \<and> (\<exists>r. left c = wr x @ r)"
    and rd_cut: "in_buf c \<Longrightarrow> wr x = left c @ r \<Longrightarrow> r \<noteq> [] \<Longrightarrow> ok x \<Longrightarrow>
      \<exists>e. rd c = Err e \<and> cut c e"
begin

lemma rd_in_buf: "in_buf c \<Longrightarrow> rd c = Ok (x, c') \<Longrightarrow> in_buf c'"
proof -
  assume c: "in_buf c" and "rd c = Ok (x, c')"
  then obtain r where "c' = adv (length (wr x)) c" "left c = wr x @ r" by (auto dest: rd_Ok)
  with c show "in_buf c'" by (simp add: in_buf_adv)
qed

lemma rd_short:
  "in_buf c \<Longrightarrow> ok x \<Longrightarrow> wr x @ s = left c @ r \<Longrightarrow> r \<noteq> [] \<Longrightarrow>
     (\<exists>t. left c = wr x @ t \<and> s = t @ r \<and> rd c = Ok (x, adv (length (wr x)) c)) \<or>
     (\<exists>e. rd c = Err e \<and> cut c e)"
proof -
  assume c: "in_buf c" "ok x" and eq: "wr x @ s = left c @ r" and r: "r \<noteq> []"
  show ?thesis
  proof (cases "\<exists>us. wr x = left c @ us \<and> us \<noteq> []")
    case True
    then show ?thesis using rd_cut [OF c(1) _ _ c(2)] by blast
  next
    case False
    with eq obtain us where us: "left c = wr x @ us" "s = us @ r"
      by (force simp: append_eq_append_conv2)
    with rd_wr [OF c(1) us(1) c(2)] show ?thesis by blast
  qed
qed

text \<open>A step of a reader that goes on with the rest: cut here, or cut later.\<close>

lemma cut_step:
  assumes "wr x @ s = left c @ r" "r \<noteq> []" "in_buf c" "ok x"
    and "\<And>c'. s = left c' @ r \<Longrightarrow> in_buf c' \<Longrightarrow> buf c' = buf c \<Longrightarrow>
      \<exists>e. f (x, c') = Err e \<and> cut c' e"
  shows "\<exists>e. res_bind (rd c) f = Err e \<and> cut c e"
  using rd_short [OF assms(3,4,1,2)]
proof (elim disjE exE conjE)
  fix t assume t: "left c = wr x @ t" "s = t @ r" "rd c = Ok (x, adv (length (wr x)) c)"
  with assms(5) [of "adv (length (wr x)) c"] rd_in_buf [OF assms(3) t(3)] show ?thesis by simp
qed auto

end

section \<open>Fields of fixed width\<close>

lemma field_fixed:
  assumes enough: "\<And>c. in_buf c \<Longrightarrow> n \<le> length (left c) \<Longrightarrow>
      rd c = Ok (dec (take n (left c)), adv n c)"
    and short: "\<And>c. in_buf c \<Longrightarrow> length (left c) < n \<Longrightarrow>
      rd c = Err (Truncated (pos c + n) (length (buf c)))"
    and dec: "\<And>x. ok x \<Longrightarrow> length (wr x) = n \<and> dec (wr x) = x"
    and wr: "\<And>b. length b = n \<Longrightarrow> ok (dec b) \<and> wr (dec b) = b"
  shows "field wr rd ok"
proof (standard, goal_cases)
  case (1 c x r)
  then show ?case using enough [of c] dec [of x] by simp
next
  case (2 c x c')
  then have n: "n \<le> length (left c)" using short [of c] by fastforce
  then have x: "x = dec (take n (left c))" and c': "c' = adv n c" using 2 enough [of c] by auto
  have "length (take n (left c)) = n" using n by simp
  then have "ok x" and w: "wr x = take n (left c)" using wr x by auto
  then show ?case using n c' by (auto intro: exI [of _ "drop n (left c)"])
next
  case (3 c x r)
  then have "length (left c) < n" using dec [of x] by (metis length_append length_greater_0_conv
        less_add_same_cancel1)
  then show ?case
    using short [of c] 3 by (auto simp: cut_def length_left in_buf_def)
qed

interpretation u8f: field "\<lambda>w. [w]" read_u8 "\<lambda>_. True"
proof (rule field_fixed [where n = 1 and dec = hd])
  fix b :: bytes assume "length b = 1"
  then show "True \<and> [hd b] = b" by (cases b) auto
qed (auto simp: read_u8_def ensure_left adv_def left_def in_buf_def hd_drop_conv_nth hd_take)

interpretation u16f: field u16_to_le read_u16_le "\<lambda>_. True"
proof (rule field_fixed [where n = 2 and dec = "\<lambda>b. u16_from_le (b ! 0) (b ! 1)"])
  fix b :: bytes assume "length b = 2"
  then show "True \<and> u16_to_le (u16_from_le (b ! 0) (b ! 1)) = b"
    by (auto simp: u16_to_from_le length_Suc_conv eval_nat_numeral)
qed (auto simp: read_u16_le_def ensure_left adv_def left_def in_buf_def u16_to_le_def)

interpretation u32f: field u32_to_le read_u32_le "\<lambda>_. True"
proof (rule field_fixed
    [where n = 4 and dec = "\<lambda>b. u32_from_le (b ! 0) (b ! 1) (b ! 2) (b ! 3)"])
  fix b :: bytes assume "length b = 4"
  then show "True \<and> u32_to_le (u32_from_le (b ! 0) (b ! 1) (b ! 2) (b ! 3)) = b"
    by (auto simp: u32_to_from_le length_Suc_conv eval_nat_numeral)
qed (auto simp: read_u32_le_def ensure_left adv_def left_def in_buf_def u32_to_le_def)

lemma field_bytes: "field (\<lambda>b. b) (read_bytes n) (\<lambda>b. length b = n)"
  by (rule field_fixed [where n = n and dec = "\<lambda>b. b"])
    (auto simp: read_bytes_def ensure_left adv_def left_def)

section \<open>Length-prefixed fields\<close>

text \<open>
  A field whose first part is the length of the second: the contract of the whole follows
  from the two contracts.
\<close>

locale prefixed = pre: field wrn rdn okn
  for wrn :: "'n \<Rightarrow> bytes" and rdn :: "cursor \<Rightarrow> envelope_error + 'n \<times> cursor" and okn +
  fixes len :: "'b \<Rightarrow> 'n"
    and wrb :: "'b \<Rightarrow> bytes"
    and rdb :: "'n \<Rightarrow> cursor \<Rightarrow> envelope_error + 'b \<times> cursor"
    and okb :: "'b \<Rightarrow> bool"
  assumes body: "okn n \<Longrightarrow> field wrb (rdb n) (\<lambda>x. okb x \<and> len x = n)"
    and len_ok: "okb x \<Longrightarrow> okn (len x)"
begin

sublocale whole: field "\<lambda>x. wrn (len x) @ wrb x" "\<lambda>c. res_bind (rdn c) (\<lambda>(n, c). rdb n c)" okb
proof (standard, goal_cases)
  case (1 c x r)
  then have n: "rdn c = Ok (len x, adv (length (wrn (len x))) c)"
    by (intro pre.rd_wr [of c "len x" "wrb x @ r"]) (auto intro: len_ok)
  have "rdb (len x) (adv (length (wrn (len x))) c) =
      Ok (x, adv (length (wrb x)) (adv (length (wrn (len x))) c))"
    by (rule field.rd_wr [OF body]) (use 1 n in \<open>auto intro: len_ok pre.rd_in_buf\<close>)
  with n show ?case by simp
next
  case (2 c x c')
  then obtain n c1 where n: "rdn c = Ok (n, c1)" and b: "rdb n c1 = Ok (x, c')"
    by (auto simp: res_bind_eq_Ok)
  from pre.rd_Ok [OF 2(1) n] obtain r where r: "okn n" "c1 = adv (length (wrn n)) c"
      "left c = wrn n @ r" by auto
  from field.rd_Ok [OF body [OF r(1)] pre.rd_in_buf [OF 2(1) n] b] r show ?case by auto
next
  case (3 c x r)
  have "wrn (len x) @ wrb x = left c @ r" using 3 by simp
  from pre.rd_short [OF 3(1) len_ok [OF 3(4)] this 3(3)] show ?case
  proof (elim disjE exE conjE)
    fix t assume t: "left c = wrn (len x) @ t" "wrb x = t @ r"
      "rdn c = Ok (len x, adv (length (wrn (len x))) c)"
    have "\<exists>e. rdb (len x) (adv (length (wrn (len x))) c) = Err e \<and> cut c e"
      using field.rd_cut [OF body [OF len_ok [OF 3(4)]], of "adv (length (wrn (len x))) c" x r]
        pre.rd_in_buf [OF 3(1) t(3)] t 3 by simp
    with t show ?case by simp
  qed auto
qed

end

end
