(* ===== verification/Envelope.thy ===== *)
theory Envelope
  imports Cursor NetError
begin

unbundle bit_operations_syntax

text \<open>
  Record envelopes (\<open>envelope.rs\<close>): the JSON and binary encodings of a record's payload,
  flag and tags, and the decoder that tells them apart by the first byte. \<open>serde_json\<close>,
  \<open>crc32c\<close> and \<open>zstd\<close> are other crates: the functions used of them are the fields of the
  record \<open>codecs\<close>, an argument of every definition, and what the code relies on is stated
  where a lemma needs it (\<open>json_law\<close>, \<open>zstd_law\<close>, \<open>zstd_cap_law\<close>, \<open>crc_detects_byte\<close>).
\<close>

section \<open>The code\<close>

record record_envelope =
  shareable :: bool
  tags :: "string list"
  payload :: bytes

record codecs =
  json_to_vec :: "record_envelope \<Rightarrow> string + bytes"
  json_from_slice :: "bytes \<Rightarrow> string + record_envelope"
  crc32c :: "bytes \<Rightarrow> u32"
  zstd_compress :: "bytes \<Rightarrow> int \<Rightarrow> string + bytes"
  zstd_decompress :: "bytes \<Rightarrow> nat \<Rightarrow> string + bytes"

definition BINARY_MAGIC :: u8 where "BINARY_MAGIC = 0xB0"
definition JSON_MAGIC :: u8 where "JSON_MAGIC = 0x7B"
definition FLAG_SHAREABLE :: u8 where "FLAG_SHAREABLE = 1"
definition FLAG_ZSTD_PAYLOAD :: u8 where "FLAG_ZSTD_PAYLOAD = 2"
definition FLAG_RESERVED_MASK :: u8 where
  "FLAG_RESERVED_MASK = NOT (FLAG_SHAREABLE OR FLAG_ZSTD_PAYLOAD)"
definition DEFAULT_ZSTD_LEVEL :: int where "DEFAULT_ZSTD_LEVEL = 3"
definition ZSTD_MAX_DECOMPRESSED_SIZE :: nat where
  "ZSTD_MAX_DECOMPRESSED_SIZE = 64 * 1024 * 1024"
definition ENVELOPE_KEY_PREFIX :: string where "ENVELOPE_KEY_PREFIX = ''hansa:rec:''"

definition envelope_new :: "bool \<Rightarrow> string list \<Rightarrow> bytes \<Rightarrow> record_envelope" where
  "envelope_new sh ts p = \<lparr>shareable = sh, tags = ts, payload = p\<rparr>"

text \<open>The \<open>expect\<close> of \<open>encode\<close> panics on an error of the JSON crate: \<open>None\<close>.\<close>

definition encode :: "codecs \<Rightarrow> record_envelope \<Rightarrow> bytes option" where
  "encode ext e = (case json_to_vec ext e of Ok b \<Rightarrow> Some b | Err _ \<Rightarrow> None)"

text \<open>The body of the loop over the tags, and the loop.\<close>

definition encode_tag :: "string \<Rightarrow> bytes" where
  "encode_tag t = u16_to_le (of_nat (length t)) @ as_bytes t"

fun encode_tags :: "string list \<Rightarrow> bytes" where
  "encode_tags [] = []"
| "encode_tags (t # ts) = encode_tag t @ encode_tags ts"

definition encode_binary_inner :: "codecs \<Rightarrow> record_envelope \<Rightarrow> int option \<Rightarrow> bytes" where
  "encode_binary_inner ext e zstd_level =
     (let (payload_bytes, zstd_flag) =
        (case zstd_level of
           Some level \<Rightarrow>
             (case zstd_compress ext (payload e) level of
                Ok compressed \<Rightarrow> (compressed, FLAG_ZSTD_PAYLOAD)
              | Err _ \<Rightarrow> (payload e, 0))
         | None \<Rightarrow> (payload e, 0));
       flags = (if shareable e then FLAG_SHAREABLE else 0) OR zstd_flag;
       buf = [BINARY_MAGIC, flags] @ u16_to_le (of_nat (length (tags e))) @ encode_tags (tags e)
         @ u32_to_le (of_nat (length payload_bytes)) @ payload_bytes
     in buf @ u32_to_le (crc32c ext buf))"

definition encode_binary :: "codecs \<Rightarrow> record_envelope \<Rightarrow> bytes" where
  "encode_binary ext e = encode_binary_inner ext e None"

definition encode_binary_zstd :: "codecs \<Rightarrow> record_envelope \<Rightarrow> int \<Rightarrow> bytes" where
  "encode_binary_zstd ext e level = encode_binary_inner ext e (Some level)"

definition encode_binary_smallest :: "codecs \<Rightarrow> record_envelope \<Rightarrow> bytes" where
  "encode_binary_smallest ext e =
     (let plain = encode_binary ext e;
          compressed = encode_binary_zstd ext e DEFAULT_ZSTD_LEVEL
      in if length compressed < length plain then compressed else plain)"

text \<open>The body of the decoder's loop over the tags (for the tag of index \<open>i\<close>), and the loop.\<close>

definition read_tag :: "nat \<Rightarrow> cursor \<Rightarrow> envelope_error + string \<times> cursor" where
  "read_tag i c =
     res_bind (read_u16_le c) (\<lambda>(tag_len, c).
     res_bind (read_bytes (unat tag_len) c) (\<lambda>(bs, c).
     res_bind (map_err (TagNotUtf8 i) (from_utf8 bs)) (\<lambda>s. Ok (s, c))))"

fun read_tags :: "nat \<Rightarrow> nat \<Rightarrow> cursor \<Rightarrow> envelope_error + string list \<times> cursor" where
  "read_tags i 0 c = Ok ([], c)"
| "read_tags i (Suc n) c =
     res_bind (read_tag i c) (\<lambda>(t, c).
     res_bind (read_tags (Suc i) n c) (\<lambda>(ts, c). Ok (t # ts, c)))"

definition decode_binary :: "codecs \<Rightarrow> bytes \<Rightarrow> envelope_error + record_envelope" where
  "decode_binary ext b =
     res_bind (read_u8 (cursor_new b)) (\<lambda>(magic, c).
     if magic \<noteq> BINARY_MAGIC then Err (InvalidMagic magic) else
     res_bind (read_u8 c) (\<lambda>(flags, c).
     if flags AND FLAG_RESERVED_MASK \<noteq> 0 then Err (ReservedFlagsSet flags) else
     let sh = (flags AND FLAG_SHAREABLE \<noteq> 0); zstd_payload = (flags AND FLAG_ZSTD_PAYLOAD \<noteq> 0) in
     res_bind (read_u16_le c) (\<lambda>(tag_count, c).
     res_bind (read_tags 0 (unat tag_count) c) (\<lambda>(ts, c).
     res_bind (read_u32_le c) (\<lambda>(payload_len, c).
     res_bind (read_bytes (unat payload_len) c) (\<lambda>(payload_bytes, c).
     let body_end = pos c in
     res_bind (read_u32_le c) (\<lambda>(stored_crc, c).
     let computed_crc = crc32c ext (take body_end b) in
     if stored_crc \<noteq> computed_crc then Err (CrcMismatch stored_crc computed_crc) else
     res_bind
       (if zstd_payload
        then map_err ZstdDecompress (zstd_decompress ext payload_bytes ZSTD_MAX_DECOMPRESSED_SIZE)
        else Ok payload_bytes)
       (\<lambda>p. Ok \<lparr>shareable = sh, tags = ts, payload = p\<rparr>))))))))"

definition decode :: "codecs \<Rightarrow> bytes \<Rightarrow> envelope_error + record_envelope" where
  "decode ext b =
     (case b of
        [] \<Rightarrow> Err (Truncated 1 0)
      | x # _ \<Rightarrow>
          (if x = JSON_MAGIC then map_err Json (json_from_slice ext b)
           else if x = BINARY_MAGIC then decode_binary ext b
           else Err (InvalidMagic x)))"

definition envelope_key_for :: "u64 \<Rightarrow> string" where
  "envelope_key_for record_id = ENVELOPE_KEY_PREFIX @ show_u64 record_id"

text \<open>
  The \<open>Display\<close> texts of \<open>Utf8Error\<close> (of the standard library) and of the variants of
  \<open>EnvelopeError\<close>.
\<close>

definition utf8_error_display :: "utf8_error \<Rightarrow> msg" where
  "utf8_error_display e =
     (case error_len e of
        Some n \<Rightarrow> [Lit ''invalid utf-8 sequence of '', Disp (show_nat n), Lit '' bytes from index '',
          Disp (show_nat (valid_up_to e))]
      | None \<Rightarrow> [Lit ''incomplete utf-8 byte sequence from index '', Disp (show_nat (valid_up_to e))])"

definition hex8 :: "u32 \<Rightarrow> string" where
  "hex8 w = concat (map hex2 (rev (u32_to_le w)))"

fun envelope_display :: "envelope_error \<Rightarrow> msg" where
  "envelope_display (Json e) = [Lit ''invalid JSON envelope: '', Disp e]"
| "envelope_display (Truncated expected got) =
     [Lit ''truncated envelope: expected '', Disp (show_nat expected), Lit '' bytes, got '',
      Disp (show_nat got)]"
| "envelope_display (InvalidMagic m) = [Lit ''invalid envelope magic: 0x'', Disp (hex2 m)]"
| "envelope_display (CrcMismatch expected got) =
     [Lit ''binary envelope CRC mismatch: header '', Disp (hex8 expected), Lit '', computed '',
      Disp (hex8 got)]"
| "envelope_display (ReservedFlagsSet fl) = [Lit ''reserved binary envelope flags set: 0x'', Disp (hex2 fl)]"
| "envelope_display (ZstdDecompress e) = [Lit ''zstd payload decompression failed: '', Disp e]"
| "envelope_display (TagNotUtf8 i e) =
     [Lit ''binary envelope: tag '', Disp (show_nat i), Lit '' is not UTF-8: ''] @ utf8_error_display e"

section \<open>The fields of the binary layout\<close>

text \<open>What the two-byte length fields can hold of a tag and of the tags.\<close>

definition tag_ok :: "string \<Rightarrow> bool" where
  "tag_ok t \<longleftrightarrow> utf8_valid t \<and> length t < 65536"

definition tags_ok :: "string list \<Rightarrow> bool" where
  "tags_ok ts \<longleftrightarrow> length ts < 65536 \<and> (\<forall>t \<in> set ts. tag_ok t)"

lemma of_nat_eq_u16: "n < 65536 \<Longrightarrow> (of_nat n :: u16) = w \<longleftrightarrow> n = unat w"
  using unat_of_nat_u16 [of n] by auto

lemma of_nat_eq_u32: "n < 4294967296 \<Longrightarrow> (of_nat n :: u32) = w \<longleftrightarrow> n = unat w"
  using unat_of_nat_u32 [of n] by auto

lemma field_text:
  "field as_bytes
     (\<lambda>c. res_bind (read_bytes (unat n) c) (\<lambda>(bs, c).
        res_bind (map_err (TagNotUtf8 i) (from_utf8 bs)) (\<lambda>s. Ok (s, c))))
     (\<lambda>t. tag_ok t \<and> of_nat (length t) = (n :: u16))"
proof (standard, goal_cases)
  case (1 c t r)
  then have "length t = unat n" using of_nat_eq_u16 [of "length t" n] by (simp add: tag_ok_def)
  then show ?case
    using 1 field.rd_wr [OF field_bytes [of "unat n"], of c "as_bytes t" r]
    by (simp add: tag_ok_def)
next
  case (2 c t c')
  then obtain bs where bs: "read_bytes (unat n) c = Ok (bs, c')" "from_utf8 bs = Ok t"
    by (auto simp: res_bind_eq_Ok)
  with field.rd_Ok [OF field_bytes 2(1) bs(1)] show ?case
    using unat_u16_less [of n] by (auto simp: from_utf8_Ok tag_ok_def of_nat_eq_u16)
next
  case (3 c t r)
  then have "length t = unat n" using of_nat_eq_u16 [of "length t" n] by (simp add: tag_ok_def)
  then have "length (as_bytes t) = unat n" by simp
  from field.rd_cut [OF field_bytes 3(1-3) this] show ?case by auto
qed

interpretation tagf: prefixed u16_to_le read_u16_le "\<lambda>_. True" "\<lambda>t. of_nat (length t)" as_bytes
  "\<lambda>n c. res_bind (read_bytes (unat n) c) (\<lambda>(bs, c).
     res_bind (map_err (TagNotUtf8 i) (from_utf8 bs)) (\<lambda>s. Ok (s, c)))" tag_ok for i
  by (intro prefixed.intro prefixed_axioms.intro u16f.field_axioms field_text) simp

lemma field_tag: "field encode_tag (read_tag i) tag_ok"
  using tagf.whole.field_axioms [of i] by (simp add: encode_tag_def [abs_def] read_tag_def [abs_def])

lemma field_tags:
  "field encode_tags (read_tags i n) (\<lambda>ts. length ts = n \<and> (\<forall>t \<in> set ts. tag_ok t))"
proof (induction n arbitrary: i)
  case 0
  show ?case by standard (auto simp: )
next
  case (Suc n)
  note tag = field_tag [of i] and rest = Suc.IH [of "Suc i"]
  show ?case
  proof (standard, goal_cases)
    case (1 c ts r)
    then obtain t ts' where ts: "ts = t # ts'" by (cases ts) auto
    with 1 have t: "read_tag i c = Ok (t, adv (length (encode_tag t)) c)"
      using field.rd_wr [OF tag, of c t "encode_tags ts' @ r"] by simp
    with 1 ts field.rd_wr [OF rest, of "adv (length (encode_tag t)) c" ts' r]
      field.rd_in_buf [OF tag, of c] show ?case by simp
  next
    case (2 c ts c')
    then obtain t ts' c1 where t: "read_tag i c = Ok (t, c1)" and ts': "read_tags (Suc i) n c1 = Ok (ts', c')"
      and ts: "ts = t # ts'" by (auto simp: res_bind_eq_Ok)
    from field.rd_Ok [OF rest field.rd_in_buf [OF tag 2(1) t] ts'] field.rd_Ok [OF tag 2(1) t] ts
    show ?case by auto
  next
    case (3 c ts r)
    then obtain t ts' where ts: "ts = t # ts'" "tag_ok t" by (cases ts) auto
    from 3 ts have "encode_tag t @ encode_tags ts' = left c @ r" by simp
    from field.rd_short [OF tag 3(1) ts(2) this 3(3)] show ?case
    proof (elim disjE exE conjE)
      fix u assume u: "left c = encode_tag t @ u" "encode_tags ts' = u @ r"
        "read_tag i c = Ok (t, adv (length (encode_tag t)) c)"
      with field.rd_cut [OF rest, of "adv (length (encode_tag t)) c" ts' r] 3 ts
        field.rd_in_buf [OF tag 3(1) u(3)] show ?case by auto
    qed auto
  qed
qed

section \<open>The whole layout\<close>

definition tags_wr :: "string list \<Rightarrow> bytes" where
  "tags_wr ts = u16_to_le (of_nat (length ts)) @ encode_tags ts"

definition payload_wr :: "bytes \<Rightarrow> bytes" where
  "payload_wr p = u32_to_le (of_nat (length p)) @ p"

definition wire :: "u8 \<Rightarrow> string list \<Rightarrow> bytes \<Rightarrow> bytes" where
  "wire fl ts p = [BINARY_MAGIC, fl] @ tags_wr ts @ payload_wr p"

definition read_tag_table :: "cursor \<Rightarrow> envelope_error + string list \<times> cursor" where
  "read_tag_table c = res_bind (read_u16_le c) (\<lambda>(n, c). read_tags 0 (unat n) c)"

definition read_payload :: "cursor \<Rightarrow> envelope_error + bytes \<times> cursor" where
  "read_payload c = res_bind (read_u32_le c) (\<lambda>(n, c). read_bytes (unat n) c)"

definition payload_ok :: "bytes \<Rightarrow> bool" where
  "payload_ok p \<longleftrightarrow> length p < 4294967296"

interpretation tablef: prefixed u16_to_le read_u16_le "\<lambda>_. True" "\<lambda>ts. of_nat (length ts)"
  encode_tags "\<lambda>n. read_tags 0 (unat n)" tags_ok
proof (intro prefixed.intro prefixed_axioms.intro u16f.field_axioms)
  fix n :: u16
  have "(\<lambda>ts. length ts = unat n \<and> (\<forall>t \<in> set ts. tag_ok t)) =
      (\<lambda>ts. tags_ok ts \<and> of_nat (length ts) = n)"
    using unat_u16_less [of n] of_nat_eq_u16 [of _ n] by (auto simp: tags_ok_def fun_eq_iff)
  with field_tags [of 0 "unat n"]
  show "field encode_tags (read_tags 0 (unat n)) (\<lambda>ts. tags_ok ts \<and> of_nat (length ts) = n)"
    by simp
qed simp

interpretation payloadf: prefixed u32_to_le read_u32_le "\<lambda>_. True" "\<lambda>p. of_nat (length p)"
  "\<lambda>p. p" "\<lambda>n. read_bytes (unat n)" payload_ok
proof (intro prefixed.intro prefixed_axioms.intro u32f.field_axioms)
  fix n :: u32
  have "(\<lambda>p :: bytes. length p = unat n) = (\<lambda>p. payload_ok p \<and> of_nat (length p) = n)"
    using unat_u32_less [of n] of_nat_eq_u32 [of _ n] by (auto simp: payload_ok_def fun_eq_iff)
  with field_bytes [of "unat n"]
  show "field (\<lambda>p. p) (read_bytes (unat n)) (\<lambda>p. payload_ok p \<and> of_nat (length p) = n)"
    by simp
qed simp

lemma field_table: "field tags_wr read_tag_table tags_ok"
  using tablef.whole.field_axioms
  by (simp add: tags_wr_def [abs_def] read_tag_table_def [abs_def])

lemma field_payload: "field payload_wr read_payload payload_ok"
  using payloadf.whole.field_axioms
  by (simp add: payload_wr_def [abs_def] read_payload_def [abs_def])

interpretation tablew: field tags_wr read_tag_table tags_ok by (rule field_table)
interpretation payloadw: field payload_wr read_payload payload_ok by (rule field_payload)

text \<open>The last steps of the decoder: the checksum of the bytes read so far and the payload.\<close>

definition decode_payload :: "codecs \<Rightarrow> u8 \<Rightarrow> bytes \<Rightarrow> envelope_error + bytes" where
  "decode_payload ext fl p =
     (if fl AND FLAG_ZSTD_PAYLOAD \<noteq> 0
      then map_err ZstdDecompress (zstd_decompress ext p ZSTD_MAX_DECOMPRESSED_SIZE)
      else Ok p)"

definition decode_trailer ::
  "codecs \<Rightarrow> bytes \<Rightarrow> u8 \<Rightarrow> string list \<Rightarrow> bytes \<Rightarrow> cursor \<Rightarrow> envelope_error + record_envelope"
where
  "decode_trailer ext b fl ts p c =
     res_bind (read_u32_le c) (\<lambda>(stored, _).
       if stored \<noteq> crc32c ext (take (pos c) b)
       then Err (CrcMismatch stored (crc32c ext (take (pos c) b)))
       else res_bind (decode_payload ext fl p)
         (\<lambda>q. Ok \<lparr>shareable = (fl AND FLAG_SHAREABLE \<noteq> 0), tags = ts, payload = q\<rparr>))"

lemma decode_binary_steps:
  "decode_binary ext b =
     res_bind (read_u8 (cursor_new b)) (\<lambda>(magic, c).
     if magic \<noteq> BINARY_MAGIC then Err (InvalidMagic magic) else
     res_bind (read_u8 c) (\<lambda>(flags, c).
     if flags AND FLAG_RESERVED_MASK \<noteq> 0 then Err (ReservedFlagsSet flags) else
     res_bind (read_tag_table c) (\<lambda>(ts, c).
     res_bind (read_payload c) (\<lambda>(p, c). decode_trailer ext b flags ts p c))))"
  by (simp add: decode_binary_def read_tag_table_def read_payload_def decode_trailer_def
      decode_payload_def res_bind_assoc split_def Let_def cong: if_cong)


lemma read_first: "read_u8 (cursor_new (x # r)) = Ok (x, adv 1 (cursor_new (x # r)))"
  using u8f.rd_wr [of "cursor_new (x # r)" x r] by simp

text \<open>Reading a well-formed layout goes through to the checksum.\<close>

lemma decode_wire:
  assumes fl: "fl AND FLAG_RESERVED_MASK = 0" and ok: "tags_ok ts" "payload_ok p"
    and b: "b = wire fl ts p @ u32_to_le crc @ rest"
  shows "decode_binary ext b =
    (if crc \<noteq> crc32c ext (wire fl ts p) then Err (CrcMismatch crc (crc32c ext (wire fl ts p)))
     else res_bind (decode_payload ext fl p)
       (\<lambda>q. Ok \<lparr>shareable = (fl AND FLAG_SHAREABLE \<noteq> 0), tags = ts, payload = q\<rparr>))"
proof -
  let ?c = "cursor_new b"
  let ?t = "length (tags_wr ts)" and ?p = "length (payload_wr p)"
  have left: "left (adv 2 ?c) = tags_wr ts @ payload_wr p @ u32_to_le crc @ rest"
    by (simp add: b wire_def)
  have inb: "in_buf (adv n ?c)" if "n \<le> length b" for n
    using that by (simp add: in_buf_adv)
  have len: "length b = 2 + ?t + ?p + 4 + length rest" by (simp add: b wire_def)
  have 1: "read_u8 ?c = Ok (BINARY_MAGIC, adv 1 ?c)"
    by (simp add: b wire_def read_first)
  have 2: "read_u8 (adv 1 ?c) = Ok (fl, adv 2 ?c)"
    using u8f.rd_wr [OF inb [of 1], of fl "left (adv 2 ?c)"] len by (simp add: b wire_def)
  have 3: "read_tag_table (adv 2 ?c) = Ok (ts, adv (2 + ?t) ?c)"
    using tablew.rd_wr [OF inb [of 2] left ok(1)] len by simp
  have 4: "read_payload (adv (2 + ?t) ?c) = Ok (p, adv (2 + ?t + ?p) ?c)"
    using payloadw.rd_wr [OF inb [of "2 + ?t"] _ ok(2), of "u32_to_le crc @ rest"] len
    by (simp add: b wire_def)
  have 5: "read_u32_le (adv (2 + ?t + ?p) ?c) = Ok (crc, adv (2 + ?t + ?p + 4) ?c)"
    using u32f.rd_wr [OF inb [of "2 + ?t + ?p"], of crc rest] len by (simp add: b wire_def)
  have 6: "take (pos (adv (2 + ?t + ?p) ?c)) b = wire fl ts p"
    by (simp add: b wire_def)
  show ?thesis
    unfolding decode_binary_steps using 1 2 3 4 5 6 fl by (simp add: decode_trailer_def)
qed

text \<open>
  And a decoder that gets as far as the checksum has read a well-formed layout.
\<close>

definition structural :: "envelope_error \<Rightarrow> bool" where
  "structural e \<longleftrightarrow> (case e of CrcMismatch _ _ \<Rightarrow> False | ZstdDecompress _ \<Rightarrow> False | _ \<Rightarrow> True)"

lemma ensure_structural: "ensure c n = Err e \<Longrightarrow> structural e"
  by (auto simp: ensure_def structural_def split: if_splits)

lemma read_structural:
  "read_u8 c = Err e \<Longrightarrow> structural e"
  "read_u16_le c = Err e \<Longrightarrow> structural e"
  "read_u32_le c = Err e \<Longrightarrow> structural e"
  "read_bytes n c = Err e \<Longrightarrow> structural e"
  by (auto simp: read_u8_def read_u16_le_def read_u32_le_def read_bytes_def res_bind_eq_Err
      intro: ensure_structural)

lemma read_tag_structural: "read_tag i c = Err e \<Longrightarrow> structural e"
  by (auto simp: read_tag_def res_eqs structural_def [of "TagNotUtf8 _ _"]
      intro: read_structural)

lemma read_tags_structural: "read_tags i n c = Err e \<Longrightarrow> structural e"
  by (induction i n c rule: read_tags.induct)
    (auto simp: res_bind_eq_Err intro: read_tag_structural)

lemma read_table_structural: "read_tag_table c = Err e \<Longrightarrow> structural e"
  by (auto simp: read_tag_table_def res_bind_eq_Err intro: read_structural read_tags_structural)

lemma read_payload_structural: "read_payload c = Err e \<Longrightarrow> structural e"
  by (auto simp: read_payload_def res_bind_eq_Err intro: read_structural)

lemma decode_wireD:
  assumes "\<And>e. decode_binary ext b = Err e \<Longrightarrow> \<not> structural e"
  obtains fl ts p crc rest where "fl AND FLAG_RESERVED_MASK = 0" "tags_ok ts" "payload_ok p"
    "b = wire fl ts p @ u32_to_le crc @ rest"
proof -
  let ?c = "cursor_new b"
  from assms obtain m c1 where 1: "read_u8 ?c = Ok (m, c1)"
    by (cases "read_u8 ?c") (auto simp: decode_binary_steps dest: read_structural)
  with assms [of "InvalidMagic m"] have m: "m = BINARY_MAGIC"
    by (cases "m = BINARY_MAGIC") (simp_all add: decode_binary_steps structural_def)
  from 1 m assms obtain fl c2 where 2: "read_u8 c1 = Ok (fl, c2)"
    by (cases "read_u8 c1") (auto simp: decode_binary_steps dest: read_structural)
  with 1 m assms [of "ReservedFlagsSet fl"] have fl: "fl AND FLAG_RESERVED_MASK = 0"
    by (cases "fl AND FLAG_RESERVED_MASK = 0") (simp_all add: decode_binary_steps structural_def)
  from 1 2 m fl assms obtain ts c3 where 3: "read_tag_table c2 = Ok (ts, c3)"
    by (cases "read_tag_table c2") (auto simp: decode_binary_steps dest: read_table_structural)
  with 1 2 m fl assms obtain p c4 where 4: "read_payload c3 = Ok (p, c4)"
    by (cases "read_payload c3") (auto simp: decode_binary_steps dest: read_payload_structural)
  with 1 2 3 m fl assms obtain crc c5 where 5: "read_u32_le c4 = Ok (crc, c5)"
    by (cases "read_u32_le c4")
      (auto simp: decode_binary_steps decode_trailer_def dest: read_structural)
  note in1 = in_buf_new [of b]
  note in2 = u8f.rd_in_buf [OF in1 1]
  note in3 = u8f.rd_in_buf [OF in2 2]
  note in4 = tablew.rd_in_buf [OF in3 3]
  note in5 = payloadw.rd_in_buf [OF in4 4]
  have "left c4 = u32_to_le crc @ left c5" using u32f.rd_Ok [OF in5 5] by auto
  moreover have "left c3 = payload_wr p @ left c4" using payloadw.rd_Ok [OF in4 4] by auto
  moreover have "left c2 = tags_wr ts @ left c3" using tablew.rd_Ok [OF in3 3] by auto
  moreover have "left c1 = fl # left c2" using u8f.rd_Ok [OF in2 2] by auto
  moreover have "b = m # left c1" using u8f.rd_Ok [OF in1 1] by auto
  ultimately have "b = wire fl ts p @ u32_to_le crc @ left c5" by (simp add: wire_def m)
  with fl tablew.rd_Ok [OF in3 3] payloadw.rd_Ok [OF in4 4] that show ?thesis by blast
qed

lemma decode_binary_OkD:
  assumes "decode_binary ext b = Ok e"
  obtains fl ts p rest where "fl AND FLAG_RESERVED_MASK = 0" "tags_ok ts" "payload_ok p"
    "b = wire fl ts p @ u32_to_le (crc32c ext (wire fl ts p)) @ rest"
    "decode_payload ext fl p = Ok (payload e)" "tags e = ts"
    "shareable e = (fl AND FLAG_SHAREABLE \<noteq> 0)"
proof -
  from assms obtain fl ts p crc rest where w: "fl AND FLAG_RESERVED_MASK = 0" "tags_ok ts"
      "payload_ok p" "b = wire fl ts p @ u32_to_le crc @ rest"
    by (elim decode_wireD [of ext b, rotated]) simp
  with assms decode_wire [OF w, of ext] have "crc = crc32c ext (wire fl ts p)"
    and "res_bind (decode_payload ext fl p)
      (\<lambda>q. Ok \<lparr>shareable = (fl AND FLAG_SHAREABLE \<noteq> 0), tags = ts, payload = q\<rparr>) = Ok e"
    by (auto split: if_splits)
  with w that show ?thesis by (fastforce simp: res_bind_eq_Ok)
qed

text \<open>A proper prefix of a well-formed layout with its checksum is truncated.\<close>

lemma decode_cut:
  assumes fl: "fl AND FLAG_RESERVED_MASK = 0" and ok: "tags_ok ts" "payload_ok p"
    and b: "wire fl ts p @ u32_to_le crc = b @ r" and r: "r \<noteq> []"
  shows "\<exists>k > length b. decode_binary ext b = Err (Truncated k (length b))"
proof -
  have tr: "\<exists>e. decode_trailer ext b fl ts p c = Err e \<and> cut c e"
    if "u32_to_le crc @ [] = left c @ r" "in_buf c" for c
    unfolding decode_trailer_def
    by (rule u32f.cut_step [OF that(1) r that(2)]) (use r in simp_all)
  have pl: "\<exists>e. res_bind (read_payload c) (\<lambda>(p, c). decode_trailer ext b fl ts p c) = Err e \<and> cut c e"
    if "payload_wr p @ u32_to_le crc = left c @ r" "in_buf c" for c
    by (rule payloadw.cut_step [OF that(1) r that(2) ok(2)]) (simp add: tr)
  have tg: "\<exists>e. res_bind (read_tag_table c) (\<lambda>(ts, c). res_bind (read_payload c)
      (\<lambda>(p, c). decode_trailer ext b fl ts p c)) = Err e \<and> cut c e"
    if "tags_wr ts @ payload_wr p @ u32_to_le crc = left c @ r" "in_buf c" for c
    by (rule tablew.cut_step [OF that(1) r that(2) ok(1)]) (simp add: pl)
  have hd: "[BINARY_MAGIC] @ fl # tags_wr ts @ payload_wr p @ u32_to_le crc =
      left (cursor_new b) @ r"
    using b by (simp add: wire_def)
  have "\<exists>e. decode_binary ext b = Err e \<and> cut (cursor_new b) e"
    unfolding decode_binary_steps
  proof (rule u8f.cut_step [OF hd r in_buf_new])
    fix c assume c: "fl # tags_wr ts @ payload_wr p @ u32_to_le crc = left c @ r" "in_buf c"
    then have "[fl] @ tags_wr ts @ payload_wr p @ u32_to_le crc = left c @ r" by simp
    from u8f.cut_step [OF this r c(2), of "\<lambda>(flags, c).
        if flags AND FLAG_RESERVED_MASK \<noteq> 0 then Err (ReservedFlagsSet flags)
        else res_bind (read_tag_table c) (\<lambda>(ts, c). res_bind (read_payload c)
          (\<lambda>(p, c). decode_trailer ext b flags ts p c))"]
    show "\<exists>e. (case (BINARY_MAGIC, c) of (magic, c) \<Rightarrow>
        if magic \<noteq> BINARY_MAGIC then Err (InvalidMagic magic)
        else res_bind (read_u8 c) (\<lambda>(flags, c).
          if flags AND FLAG_RESERVED_MASK \<noteq> 0 then Err (ReservedFlagsSet flags)
          else res_bind (read_tag_table c) (\<lambda>(ts, c). res_bind (read_payload c)
            (\<lambda>(p, c). decode_trailer ext b flags ts p c)))) = Err e \<and> cut c e"
      by (simp add: fl tg)
  qed simp
  then show ?thesis by (auto simp: cut_def)
qed

section \<open>Flags\<close>

lemmas flag_defs =
  FLAG_SHAREABLE_def FLAG_ZSTD_PAYLOAD_def FLAG_RESERVED_MASK_def

lemma flags_small: "fl AND FLAG_RESERVED_MASK = 0 \<longleftrightarrow> fl \<in> {0, 1, 2, 3}"
proof
  assume "fl AND FLAG_RESERVED_MASK = 0"
  then have "fl AND NOT 3 = 0" by (simp add: flag_defs)
  moreover have "fl = (fl AND 3) OR (fl AND NOT 3)"
    by (simp flip: bit.conj_disj_distrib)
  ultimately have "fl = fl AND 3" by simp
  then have "fl AND mask 2 = fl" by (simp add: mask_eq_exp_minus_1)
  then have "uint fl < 4" by (simp add: mask_eq_iff)
  then have "uint fl = 0 \<or> uint fl = 1 \<or> uint fl = 2 \<or> uint fl = 3"
    using uint_ge_0 [of fl] by linarith
  moreover have "fl = word_of_int (uint fl)" by simp
  ultimately show "fl \<in> {0, 1, 2, 3}" by (elim disjE) (metis insertCI word_of_int_0 word_of_int_1 word_of_int_numeral)+
qed (auto simp: flag_defs)

definition envelope_flags :: "bool \<Rightarrow> bool \<Rightarrow> u8" where
  "envelope_flags sh z = (if sh then FLAG_SHAREABLE else 0) OR (if z then FLAG_ZSTD_PAYLOAD else 0)"

lemma envelope_flags_bits [simp]:
  "envelope_flags sh z AND FLAG_RESERVED_MASK = 0"
  "envelope_flags sh z AND FLAG_SHAREABLE \<noteq> 0 \<longleftrightarrow> sh"
  "envelope_flags sh z AND FLAG_ZSTD_PAYLOAD \<noteq> 0 \<longleftrightarrow> z"
  by (simp_all add: envelope_flags_def flag_defs)

lemma envelope_flags_of:
  "fl AND FLAG_RESERVED_MASK = 0 \<Longrightarrow>
   fl = envelope_flags (fl AND FLAG_SHAREABLE \<noteq> 0) (fl AND FLAG_ZSTD_PAYLOAD \<noteq> 0)"
  unfolding flags_small by (auto simp: envelope_flags_def flag_defs)


section \<open>Encodings as layouts\<close>

definition storable :: "record_envelope \<Rightarrow> bool" where
  "storable e \<longleftrightarrow> tags_ok (tags e) \<and> payload_ok (payload e)"

text \<open>The layout of an encoding: the bytes before the checksum, and the whole.\<close>

definition body_of :: "bool \<Rightarrow> record_envelope \<Rightarrow> bytes \<Rightarrow> bytes" where
  "body_of z e p = wire (envelope_flags (shareable e) z) (tags e) p"

definition sealed :: "codecs \<Rightarrow> bytes \<Rightarrow> bytes" where
  "sealed ext b = b @ u32_to_le (crc32c ext b)"

lemma encode_binary_sealed: "encode_binary ext e = sealed ext (body_of False e (payload e))"
  by (simp add: encode_binary_def encode_binary_inner_def sealed_def body_of_def wire_def
      tags_wr_def payload_wr_def envelope_flags_def Let_def)

lemma encode_binary_zstd_sealed:
  "encode_binary_zstd ext e level =
     (case zstd_compress ext (payload e) level of
        Ok p \<Rightarrow> sealed ext (body_of True e p)
      | Err _ \<Rightarrow> encode_binary ext e)"
  unfolding encode_binary_sealed
  by (simp add: encode_binary_zstd_def encode_binary_inner_def sealed_def body_of_def wire_def
      tags_wr_def payload_wr_def envelope_flags_def Let_def split: sum.splits)

lemma decode_sealed:
  assumes "tags_ok (tags e)" "payload_ok p"
  shows "decode_binary ext (sealed ext (body_of z e p) @ rest) =
    res_bind (decode_payload ext (envelope_flags (shareable e) z) p)
      (\<lambda>q. Ok (e\<lparr>payload := q\<rparr>))"
  using decode_wire [OF _ assms, of "envelope_flags (shareable e) z"
      "sealed ext (body_of z e p) @ rest" _ rest ext]
  by (cases e) (simp add: sealed_def body_of_def)

lemma decode_payload_flags [simp]:
  "decode_payload ext (envelope_flags sh False) p = Ok p"
  "decode_payload ext (envelope_flags sh True) p =
     map_err ZstdDecompress (zstd_decompress ext p ZSTD_MAX_DECOMPRESSED_SIZE)"
  by (simp_all add: decode_payload_def)

lemma decode_encode_binary:
  "storable e \<Longrightarrow> decode_binary ext (encode_binary ext e @ rest) = Ok e"
  by (simp add: storable_def encode_binary_sealed decode_sealed)

lemma decode_encode_binary_exact: "storable e \<Longrightarrow> decode_binary ext (encode_binary ext e) = Ok e"
  using decode_encode_binary [of e ext "[]"] by simp

lemma sealed_body_simps [simp]:
  "hd (sealed ext (body_of z e p)) = BINARY_MAGIC"
  "sealed ext (body_of z e p) \<noteq> []"
  "sealed ext (body_of z e p) ! Suc 0 = envelope_flags (shareable e) z"
  by (simp_all add: sealed_def body_of_def wire_def)

lemma decode_sealed_dispatch [simp]:
  "decode ext (sealed ext (body_of z e p) @ rest) =
   decode_binary ext (sealed ext (body_of z e p) @ rest)"
  by (simp add: sealed_def body_of_def wire_def decode_def BINARY_MAGIC_def JSON_MAGIC_def)

text \<open>A buffer the binary decoder accepts, as the encoding it came from.\<close>

lemma decode_binary_sealedD:
  assumes "decode_binary ext b = Ok e"
  obtains z p rest where "b = sealed ext (body_of z e p) @ rest" "tags_ok (tags e)" "payload_ok p"
    "decode_payload ext (envelope_flags (shareable e) z) p = Ok (payload e)"
proof -
  from assms obtain fl ts p rest where h: "fl AND FLAG_RESERVED_MASK = 0" "tags_ok ts"
    "payload_ok p" "b = wire fl ts p @ u32_to_le (crc32c ext (wire fl ts p)) @ rest"
    "decode_payload ext fl p = Ok (payload e)" "tags e = ts"
    "shareable e = (fl AND FLAG_SHAREABLE \<noteq> 0)" by (rule decode_binary_OkD)
  define z where "z = (fl AND FLAG_ZSTD_PAYLOAD \<noteq> 0)"
  have "fl = envelope_flags (shareable e) z"
    unfolding h(7) z_def by (rule envelope_flags_of [OF h(1)])
  moreover have "tags_ok (tags e)" unfolding h(6) by (rule h(2))
  ultimately show thesis
    using that [of z p rest] h(3,4,5) unfolding sealed_def body_of_def h(6) by simp
qed

end
