(* ===== verification/EnvelopeProps.thy ===== *)
theory EnvelopeProps
  imports Envelope
begin

unbundle bit_operations_syntax

text \<open>
  What the envelope encodings guarantee: the binary round trip and exactly which records have
  one, that the binary decoder accepts nothing but encodings, truncation and corruption, the
  zstd variant with its size cap, and the dispatch on the first byte.
\<close>

section \<open>What the other crates promise\<close>

text \<open>\<open>zstd::bulk\<close>: decompression undoes compression, and refuses more than the capacity.\<close>

definition zstd_law :: "codecs \<Rightarrow> bool" where
  "zstd_law ext \<longleftrightarrow>
     (\<forall>p level c cap. zstd_compress ext p level = Ok c \<longrightarrow>
        (if length p \<le> cap then zstd_decompress ext c cap = Ok p
         else \<exists>m. zstd_decompress ext c cap = Err m))"

text \<open>\<open>zstd::bulk::decompress\<close> returns at most \<open>capacity\<close> bytes.\<close>

definition zstd_cap_law :: "codecs \<Rightarrow> bool" where
  "zstd_cap_law ext \<longleftrightarrow>
     (\<forall>c cap p. zstd_decompress ext c cap = Ok p \<longrightarrow> length p \<le> cap)"

text \<open>A cyclic redundancy check detects every change of a single byte.\<close>

definition crc_detects_byte :: "codecs \<Rightarrow> bool" where
  "crc_detects_byte ext \<longleftrightarrow>
     (\<forall>a x c y. x \<noteq> y \<longrightarrow> crc32c ext (a @ y # c) \<noteq> crc32c ext (a @ x # c))"

text \<open>\<open>serde_json\<close> writes this record as an object and reads it back.\<close>

definition json_law :: "codecs \<Rightarrow> record_envelope \<Rightarrow> bool" where
  "json_law ext e \<longleftrightarrow>
     (\<exists>js. json_to_vec ext e = Ok (JSON_MAGIC # js) \<and> json_from_slice ext (JSON_MAGIC # js) = Ok e)"

text \<open>
  Codecs that satisfy the laws, for the witnesses: payloads stored as they are, a sum of the
  bytes for a checksum, one JSON text.
\<close>

definition byte_sum :: "bytes \<Rightarrow> u32" where
  "byte_sum b = of_nat (sum_list (map unat b))"

definition sample_envelope :: record_envelope where
  "sample_envelope = \<lparr>shareable = True, tags = [''topic''], payload = [1, 2, 3]\<rparr>"

definition sample_codecs :: codecs where
  "sample_codecs = \<lparr>json_to_vec = (\<lambda>_. Ok [JSON_MAGIC, 0x7D]), json_from_slice = (\<lambda>_. Ok sample_envelope),
     crc32c = byte_sum, zstd_compress = (\<lambda>p _. Ok p),
     zstd_decompress = (\<lambda>p cap. if length p \<le> cap then Ok p else Err ''too large'')\<rparr>"

lemma sample_codecs_zstd: "zstd_law sample_codecs"
  by (simp add: zstd_law_def sample_codecs_def)

lemma sample_codecs_cap: "zstd_cap_law sample_codecs"
  by (simp add: zstd_cap_law_def sample_codecs_def)

lemma sample_codecs_json: "json_law sample_codecs sample_envelope"
  by (simp add: json_law_def sample_codecs_def)

lemma byte_sum_detects:
  assumes "x \<noteq> y"
  shows "byte_sum (a @ y # c) \<noteq> byte_sum (a @ x # c)"
proof
  assume "byte_sum (a @ y # c) = byte_sum (a @ x # c)"
  then have "(of_nat (unat y) :: u32) = of_nat (unat x)"
    by (simp add: byte_sum_def)
  then have "of_nat (unat y) = (of_nat (unat x) :: u32)" by simp
  then have "unat y = unat x"
    using unat_u8_less [of x] unat_u8_less [of y] of_nat_eq_u32 [of "unat y" "of_nat (unat x)"]
      unat_of_nat_u32 [of "unat x"] by linarith
  with assms show False by (metis unsigned_word_eqI)
qed

lemma sample_codecs_crc: "crc_detects_byte sample_codecs"
  unfolding crc_detects_byte_def sample_codecs_def by (simp add: byte_sum_detects)

lemma sample_storable: "storable sample_envelope"
  by (simp add: storable_def sample_envelope_def tags_ok_def tag_ok_def payload_ok_def
      utf8_valid_ascii)

section \<open>Properties\<close>

text \<open>
  C4: the binary encoding is read back, whatever follows it in the buffer, exactly for the
  records whose tags are at most 65535, each of valid UTF-8 of at most 65535 bytes, and whose
  payload is shorter than 4 GiB. For any other record the length fields are truncated by the
  casts of the encoder and the decoder does not return the record.
\<close>

theorem binary_roundtrip_iff:
  "decode_binary ext (encode_binary ext e @ rest) = Ok e \<longleftrightarrow> storable e"
proof
  assume h: "decode_binary ext (encode_binary ext e @ rest) = Ok e"
  then obtain z p r where d: "encode_binary ext e @ rest = sealed ext (body_of z e p) @ r"
      "tags_ok (tags e)" "payload_ok p"
      "decode_payload ext (envelope_flags (shareable e) z) p = Ok (payload e)"
    by (rule decode_binary_sealedD)
  have "(encode_binary ext e @ rest) ! 1 = (sealed ext (body_of z e p) @ r) ! 1"
    unfolding d(1) ..
  then have "envelope_flags (shareable e) False = envelope_flags (shareable e) z"
    by (simp add: encode_binary_sealed sealed_def body_of_def wire_def)
  then have "z = False" by (metis envelope_flags_bits(3))
  with d show "storable e" by (simp add: storable_def)
qed (rule decode_encode_binary)

text \<open>
  C5: the binary decoder accepts nothing but encodings. If a buffer without the zstd flag
  decodes to a record, the buffer is that record's encoding, followed by bytes the decoder
  does not look at.
\<close>

theorem decode_binary_canonical:
  assumes "decode_binary ext b = Ok e" and "b ! 1 AND FLAG_ZSTD_PAYLOAD = 0"
  shows "\<exists>rest. b = encode_binary ext e @ rest"
proof -
  from assms(1) obtain z p r where d: "b = sealed ext (body_of z e p) @ r" 
      "decode_payload ext (envelope_flags (shareable e) z) p = Ok (payload e)"
    by (rule decode_binary_sealedD)
  have "b ! 1 = envelope_flags (shareable e) z"
    by (simp add: d(1) sealed_def body_of_def wire_def)
  with assms(2) have "z = False" by (metis envelope_flags_bits(3))
  with d show ?thesis by (auto simp: encode_binary_sealed)
qed

theorem decode_binary_canonical_witness:
  "\<exists>rest. encode_binary sample_codecs sample_envelope = encode_binary sample_codecs sample_envelope @ rest"
proof (rule decode_binary_canonical)
  show "decode_binary sample_codecs (encode_binary sample_codecs sample_envelope) = Ok sample_envelope"
    by (rule decode_encode_binary_exact [OF sample_storable])
  show "encode_binary sample_codecs sample_envelope ! 1 AND FLAG_ZSTD_PAYLOAD = 0"
    by (simp add: encode_binary_sealed envelope_flags_def flag_defs sample_envelope_def)
qed

lemma truncated_prefix:
  assumes "storable e" and "n < length (encode_binary ext e)"
  shows "\<exists>k > n. decode_binary ext (take n (encode_binary ext e)) = Err (Truncated k n)"
proof -
  let ?b = "take n (encode_binary ext e)"
  have "wire (envelope_flags (shareable e) False) (tags e) (payload e) @
      u32_to_le (crc32c ext (body_of False e (payload e))) = encode_binary ext e"
    by (simp add: encode_binary_sealed sealed_def body_of_def)
  also have "\<dots> = ?b @ drop n (encode_binary ext e)"
    by (rule append_take_drop_id [symmetric])
  finally have "wire (envelope_flags (shareable e) False) (tags e) (payload e) @
      u32_to_le (crc32c ext (body_of False e (payload e))) = ?b @ drop n (encode_binary ext e)" .
  from decode_cut [OF _ _ _ this, of ext] assms show ?thesis
    by (simp add: storable_def min_def)
qed

text \<open>
  C6: every proper prefix of a storable record's encoding is refused as truncated, with the
  length it has and a larger length it would need.
\<close>

theorem truncated_encoding:
  assumes "storable e" and "n < length (encode_binary ext e)"
  shows "\<exists>k > n. decode_binary ext (take n (encode_binary ext e)) = Err (Truncated k n)"
  by (rule truncated_prefix [OF assms])

theorem truncated_encoding_witness:
  "\<exists>k > 5. decode_binary sample_codecs (take 5 (encode_binary sample_codecs sample_envelope)) =
     Err (Truncated k 5)"
  using truncated_encoding [OF sample_storable, of 5 sample_codecs]
  by (simp add: encode_binary_sealed sealed_def body_of_def wire_def tags_wr_def)

text \<open>
  C32: a change of one byte of the stored payload is reported as a checksum mismatch, with the
  stored checksum and the one computed over the changed bytes.
\<close>

theorem payload_corruption_detected:
  assumes "storable e" and "crc_detects_byte ext"
    and p: "payload e = a @ x # c" and y: "y \<noteq> x"
    and pre: "encode_binary ext e = h @ payload e @ t" "length t = 4"
  shows "decode_binary ext (h @ (a @ y # c) @ t) =
    Err (CrcMismatch (crc32c ext (h @ payload e)) (crc32c ext (h @ a @ y # c)))"
proof -
  have enc: "encode_binary ext e = body_of False e (payload e) @
      u32_to_le (crc32c ext (body_of False e (payload e)))"
    by (simp add: encode_binary_sealed sealed_def)
  with pre have hp: "h @ payload e = body_of False e (payload e)" and
      t: "t = u32_to_le (crc32c ext (h @ payload e))"
    by (metis append_assoc append_eq_append_conv length_u32_to_le)+
  have len: "length (payload e) = length (a @ y # c)" by (simp add: p)
  from hp have h: "h @ (a @ y # c) = body_of False e (a @ y # c)"
    using len by (simp add: body_of_def wire_def payload_wr_def)
  have "decode_binary ext (h @ (a @ y # c) @ t) =
      (if crc32c ext (h @ payload e) \<noteq> crc32c ext (h @ a @ y # c)
       then Err (CrcMismatch (crc32c ext (h @ payload e)) (crc32c ext (h @ a @ y # c)))
       else Ok (e\<lparr>payload := a @ y # c\<rparr>))"
    using decode_wire [of "envelope_flags (shareable e) False" "tags e" "a @ y # c"
        "h @ (a @ y # c) @ t" "crc32c ext (h @ payload e)" "[]" ext] assms(1) h len t
    by (cases e) (simp add: storable_def payload_ok_def body_of_def)
  moreover have "crc32c ext (h @ payload e) \<noteq> crc32c ext (h @ a @ y # c)"
    using assms(2) y p unfolding crc_detects_byte_def by (metis append_assoc)
  ultimately show ?thesis by simp
qed

theorem payload_corruption_detected_witness:
  "\<exists>h t s g. encode_binary sample_codecs sample_envelope = h @ [1, 2, 3] @ t \<and> length t = 4 \<and>
     decode_binary sample_codecs (h @ [1, 9, 3] @ t) = Err (CrcMismatch s g)"
proof -
  obtain h t where ht: "encode_binary sample_codecs sample_envelope = h @ payload sample_envelope @ t"
      "length t = 4"
    by (auto simp: encode_binary_sealed sealed_def body_of_def wire_def payload_wr_def
        intro: that [of "BINARY_MAGIC # envelope_flags (shareable sample_envelope) False #
          tags_wr (tags sample_envelope) @ u32_to_le (of_nat (length (payload sample_envelope)))"])
  have "payload sample_envelope = [1] @ 2 # [3]" by (simp add: sample_envelope_def)
  from payload_corruption_detected [OF sample_storable sample_codecs_crc this _ ht, of 9]
  show ?thesis using ht by (auto simp: sample_envelope_def)
qed

lemma decode_encode_binary_dispatch:
  "storable e \<Longrightarrow> decode ext (encode_binary ext e @ rest) = Ok e"
  using decode_encode_binary [of e ext rest] by (simp add: encode_binary_sealed)

lemma decode_zstd:
  assumes "zstd_law ext" and "tags_ok (tags e)" and c: "zstd_compress ext (payload e) level = Ok c"
    and "payload_ok c"
  shows "if length (payload e) \<le> ZSTD_MAX_DECOMPRESSED_SIZE
    then decode ext (encode_binary_zstd ext e level @ rest) = Ok e
    else \<exists>m. decode ext (encode_binary_zstd ext e level @ rest) = Err (ZstdDecompress m)"
proof -
  have "if length (payload e) \<le> ZSTD_MAX_DECOMPRESSED_SIZE
      then zstd_decompress ext c ZSTD_MAX_DECOMPRESSED_SIZE = Ok (payload e)
      else \<exists>m. zstd_decompress ext c ZSTD_MAX_DECOMPRESSED_SIZE = Err m"
    using assms(1) c unfolding zstd_law_def by blast
  then show ?thesis
    using assms by (auto simp: encode_binary_zstd_sealed decode_sealed split: if_splits)
qed

lemma decode_zstd_small:
  assumes "zstd_law ext" and "tags_ok (tags e)"
    and "length (payload e) \<le> ZSTD_MAX_DECOMPRESSED_SIZE"
    and "\<And>c. zstd_compress ext (payload e) level = Ok c \<Longrightarrow> payload_ok c"
  shows "decode ext (encode_binary_zstd ext e level @ rest) = Ok e"
proof (cases "zstd_compress ext (payload e) level")
  case (Inl m)
  have "storable e"
    using assms by (simp add: storable_def payload_ok_def ZSTD_MAX_DECOMPRESSED_SIZE_def)
  with Inl show ?thesis
    by (simp add: encode_binary_zstd_sealed decode_encode_binary_dispatch)
next
  case (Inr c)
  with decode_zstd [OF assms(1,2) Inr assms(4), of rest] assms(3) show ?thesis by simp
qed

text \<open>
  C30: for payloads up to the decoder's 64 MiB cap, the smaller of the two binary encodings is
  no longer than either and is read back; and the compressed encoding is read back at every
  compression level whose output fits the length field, also when compression fails and the
  encoder falls back to the plain form.
\<close>

theorem smallest_roundtrip:
  assumes "zstd_law ext" and "tags_ok (tags e)"
    and "length (payload e) \<le> ZSTD_MAX_DECOMPRESSED_SIZE"
  shows "decode ext (encode_binary_smallest ext e) = Ok e \<and>
    length (encode_binary_smallest ext e) \<le> length (encode_binary ext e) \<and>
    length (encode_binary_smallest ext e) \<le> length (encode_binary_zstd ext e DEFAULT_ZSTD_LEVEL) \<and>
    (\<forall>level rest. (\<forall>c. zstd_compress ext (payload e) level = Ok c \<longrightarrow> payload_ok c) \<longrightarrow>
       decode ext (encode_binary_zstd ext e level @ rest) = Ok e)"
proof -
  let ?plain = "encode_binary ext e" and ?z = "encode_binary_zstd ext e DEFAULT_ZSTD_LEVEL"
  have st: "storable e"
    using assms by (simp add: storable_def payload_ok_def ZSTD_MAX_DECOMPRESSED_SIZE_def)
  have z: "decode ext ?z = Ok e" if "length ?z < length ?plain"
  proof -
    have "payload_ok c" if c: "zstd_compress ext (payload e) DEFAULT_ZSTD_LEVEL = Ok c" for c
    proof -
      have "length c < length (payload e)"
        using \<open>length ?z < length ?plain\<close> c
        by (simp add: encode_binary_zstd_sealed encode_binary_sealed sealed_def body_of_def
            wire_def payload_wr_def)
      with st show ?thesis by (simp add: storable_def payload_ok_def)
    qed
    then show ?thesis using decode_zstd_small [OF assms, of DEFAULT_ZSTD_LEVEL "[]"] by simp
  qed
  have "decode ext (encode_binary_zstd ext e level @ rest) = Ok e"
    if "\<forall>c. zstd_compress ext (payload e) level = Ok c \<longrightarrow> payload_ok c" for level rest
    using decode_zstd_small [OF assms] that by blast
  moreover have "decode ext (encode_binary_smallest ext e) = Ok e"
    using z decode_encode_binary_dispatch [OF st, of ext "[]"]
    by (simp add: encode_binary_smallest_def Let_def)
  ultimately show ?thesis by (simp add: encode_binary_smallest_def Let_def)
qed

theorem smallest_roundtrip_witness:
  "decode sample_codecs (encode_binary_smallest sample_codecs sample_envelope) = Ok sample_envelope \<and>
   decode sample_codecs (encode_binary_zstd sample_codecs sample_envelope 3 @ [0xFF]) = Ok sample_envelope"
proof -
  have "\<forall>c. zstd_compress sample_codecs (payload sample_envelope) 3 = Ok c \<longrightarrow> payload_ok c"
    by (simp add: sample_codecs_def sample_envelope_def payload_ok_def)
  moreover have "tags_ok (tags sample_envelope)" using sample_storable by (simp add: storable_def)
  moreover have "length (payload sample_envelope) \<le> ZSTD_MAX_DECOMPRESSED_SIZE"
    by (simp add: sample_envelope_def ZSTD_MAX_DECOMPRESSED_SIZE_def)
  ultimately show ?thesis using smallest_roundtrip [OF sample_codecs_zstd] by blast
qed

text \<open>
  C31: above the cap the smallest encoding loses the record. A storable record with a
  payload of more than 64 MiB that compresses at all is written in a form the decoder
  refuses, although its plain encoding is read back.
\<close>

theorem smallest_above_cap_unreadable:
  assumes "zstd_law ext" and "storable e" and "ZSTD_MAX_DECOMPRESSED_SIZE < length (payload e)"
    and "zstd_compress ext (payload e) DEFAULT_ZSTD_LEVEL = Ok c" and "length c < length (payload e)"
  shows "decode ext (encode_binary ext e) = Ok e \<and>
    (\<exists>m. decode ext (encode_binary_smallest ext e) = Err (ZstdDecompress m))"
proof -
  have "encode_binary_smallest ext e = encode_binary_zstd ext e DEFAULT_ZSTD_LEVEL"
    using assms(4,5) by (simp add: encode_binary_smallest_def Let_def encode_binary_zstd_sealed
        encode_binary_sealed sealed_def body_of_def wire_def payload_wr_def)
  moreover have "payload_ok c" using assms(2,5) by (simp add: storable_def payload_ok_def)
  ultimately show ?thesis
    using decode_zstd [OF assms(1) _ assms(4), of "[]"] assms(2,3)
      decode_encode_binary_dispatch [OF assms(2), of ext "[]"]
    by (simp add: storable_def)
qed

definition big_payload :: bytes where
  "big_payload = replicate 67108865 0"

definition big_codecs :: codecs where
  "big_codecs = sample_codecs\<lparr>
     zstd_compress := (\<lambda>p _. if p = big_payload then Ok [] else Ok (1 # p)),
     zstd_decompress := (\<lambda>c cap. let p = (if c = [] then big_payload else tl c) in
       if length p \<le> cap then Ok p else Err ''too large'')\<rparr>"

theorem smallest_above_cap_unreadable_witness:
  "\<exists>m. decode big_codecs (encode_binary_smallest big_codecs
     \<lparr>shareable = True, tags = [], payload = big_payload\<rparr>) = Err (ZstdDecompress m)"
proof -
  let ?e = "\<lparr>shareable = True, tags = [], payload = big_payload\<rparr>"
  have "zstd_law big_codecs" by (simp add: zstd_law_def big_codecs_def Let_def)
  moreover have "storable ?e"
    by (simp add: storable_def tags_ok_def payload_ok_def big_payload_def)
  moreover have "ZSTD_MAX_DECOMPRESSED_SIZE < length (payload ?e)"
    by (simp add: ZSTD_MAX_DECOMPRESSED_SIZE_def big_payload_def)
  moreover have "zstd_compress big_codecs (payload ?e) DEFAULT_ZSTD_LEVEL = Ok []"
    by (simp add: big_codecs_def)
  moreover have "length ([] :: bytes) < length (payload ?e)" by (simp add: big_payload_def)
  ultimately show ?thesis using smallest_above_cap_unreadable [of big_codecs ?e "[]"] by blast
qed

text \<open>The JSON and the binary encoding are both recognised by their first byte.\<close>

lemma decode_detects_encoding:
  assumes "json_law ext e" and "storable e"
  shows "(\<exists>b. encode ext e = Some b \<and> decode ext b = Ok e) \<and>
    decode ext (encode_binary ext e) = Ok e"
  using assms decode_encode_binary_dispatch [OF assms(2), of ext "[]"]
  by (auto simp: json_law_def encode_def decode_def)

lemma encode_tags_length: "sum_list (map length ts) \<le> length (encode_tags ts)"
  by (induction ts) (auto simp: encode_tag_def)

text \<open>
  Decoding cannot blow up: the payload of a decoded record is at most 64 MiB or the length of
  the buffer, and its tags take no more room than the buffer.
\<close>

lemma decoded_size_bound:
  assumes "zstd_cap_law ext" and "decode_binary ext b = Ok e"
  shows "length (payload e) \<le> max ZSTD_MAX_DECOMPRESSED_SIZE (length b) \<and>
    sum_list (map length (tags e)) \<le> length b"
proof -
  from assms(2) obtain z p r where d: "b = sealed ext (body_of z e p) @ r"
      "decode_payload ext (envelope_flags (shareable e) z) p = Ok (payload e)"
    by (rule decode_binary_sealedD)
  have "length p \<le> length b" and "length (encode_tags (tags e)) \<le> length b"
    by (simp_all add: d(1) sealed_def body_of_def wire_def payload_wr_def tags_wr_def)
  moreover have "length (payload e) \<le> max ZSTD_MAX_DECOMPRESSED_SIZE (length p)"
  proof (cases z)
    case True
    with d(2) have "length (payload e) \<le> ZSTD_MAX_DECOMPRESSED_SIZE"
      using assms(1) unfolding zstd_cap_law_def by (auto simp: map_err_eq_Ok)
    then show ?thesis by (rule max.coboundedI1)
  qed (use d(2) in auto)
  ultimately show ?thesis using encode_tags_length [of "tags e"] by linarith
qed

text \<open>
  C29: the binary decoder returns only records the binary encoding can carry, whatever the
  buffer: their tags are UTF-8 and they, their number and the payload fit the length fields,
  so the encoding of a decoded record is read back as the same record. Nor does it blow up:
  the payload is at most 64 MiB or the length of the buffer, the tags at most the buffer.
\<close>

theorem decoded_record_storable:
  assumes "zstd_cap_law ext" and "decode_binary ext b = Ok e"
  shows "storable e \<and> decode_binary ext (encode_binary ext e) = Ok e \<and>
    length (payload e) \<le> max ZSTD_MAX_DECOMPRESSED_SIZE (length b) \<and>
    sum_list (map length (tags e)) \<le> length b"
proof -
  from assms(2) obtain z p r where d: "tags_ok (tags e)" "payload_ok p"
      "decode_payload ext (envelope_flags (shareable e) z) p = Ok (payload e)"
    by (rule decode_binary_sealedD)
  have "payload_ok (payload e)"
  proof (cases z)
    case True
    with d(3) have "length (payload e) \<le> ZSTD_MAX_DECOMPRESSED_SIZE"
      using assms(1) unfolding zstd_cap_law_def by (auto simp: map_err_eq_Ok)
    then show ?thesis by (simp add: payload_ok_def ZSTD_MAX_DECOMPRESSED_SIZE_def)
  qed (use d(2,3) in auto)
  with d(1) have "storable e" by (simp add: storable_def)
  with decoded_size_bound [OF assms] show ?thesis by (simp add: decode_encode_binary_exact)
qed

theorem decoded_record_storable_witness:
  "storable sample_envelope \<and> length (payload sample_envelope) \<le> max ZSTD_MAX_DECOMPRESSED_SIZE
     (length (encode_binary sample_codecs sample_envelope))"
  using decoded_record_storable [OF sample_codecs_cap decode_encode_binary_exact [OF sample_storable]]
  by blast

text \<open>Two records never share a key.\<close>

lemma envelope_key_inj: "envelope_key_for i = envelope_key_for j \<longleftrightarrow> i = j"
  by (simp add: envelope_key_for_def show_u64_inj)

end
