(* ===== verification/EnvelopeTests.thy ===== *)
theory EnvelopeTests
  imports EnvelopeProps "HOL-Library.Countable"
begin

unbundle bit_operations_syntax

text \<open>
  The unit tests of \<open>envelope.rs\<close>, each as a function that says whether it passes. An \<open>unwrap\<close>
  that would panic and an assertion that fails are both \<open>False\<close>. All but two of them pass
  whatever the JSON, checksum and compression crates do within the laws; the other two are
  about the size of what zstd makes of three payloads, and pass exactly for certain sizes.
\<close>

section \<open>The tests\<close>

definition sample :: "string \<Rightarrow> record_envelope" where
  "sample p = \<lparr>shareable = True, tags = [''topic'', ''crypto''], payload = as_bytes p\<rparr>"

definition json_round_trip_back_compat :: "codecs \<Rightarrow> bool" where
  "json_round_trip_back_compat ext =
     (let env = sample ''hello world'' in
      case encode ext env of
        None \<Rightarrow> False
      | Some b \<Rightarrow> take 1 b = [JSON_MAGIC] \<and> decode ext b = Ok env)"

definition binary_round_trip :: "codecs \<Rightarrow> bool" where
  "binary_round_trip ext =
     (let env = sample ''hello world''; b = encode_binary ext env in
      take 1 b = [BINARY_MAGIC] \<and> decode ext b = Ok env)"

definition binary_round_trip_empty_tags_empty_payload :: "codecs \<Rightarrow> bool" where
  "binary_round_trip_empty_tags_empty_payload ext =
     (let env = \<lparr>shareable = False, tags = [], payload = []\<rparr> in
      decode ext (encode_binary ext env) = Ok env)"

text \<open>The three tags are written in two, three and four bytes a character.\<close>

definition unicode_tags :: "string list" where
  "unicode_tags = map string_of
     [[0x63, 0x61, 0x66, 0xC3, 0xA9],
      [0xE6, 0x97, 0xA5, 0xE6, 0x9C, 0xAC, 0xE8, 0xAA, 0x9E],
      [0xF0, 0x9F, 0xA6, 0x80]]"

definition binary_round_trip_unicode_tags :: "codecs \<Rightarrow> bool" where
  "binary_round_trip_unicode_tags ext =
     (let env = \<lparr>shareable = True, tags = unicode_tags, payload = as_bytes ''unicode payload''\<rparr> in
      decode ext (encode_binary ext env) = Ok env)"

definition binary_round_trip_large_payload :: "codecs \<Rightarrow> bool" where
  "binary_round_trip_large_payload ext =
     (let env = \<lparr>shareable = False, tags = [''x''], payload = replicate 100000 0xAB\<rparr> in
      decode ext (encode_binary ext env) = Ok env)"

definition letters :: bytes where
  "letters = map (\<lambda>i. of_nat (i mod 26) + of_char CHR ''a'') [0..<1024]"

definition binary_is_smaller_than_json_for_text_payloads :: "codecs \<Rightarrow> bool" where
  "binary_is_smaller_than_json_for_text_payloads ext =
     (let env = \<lparr>shareable = True, tags = [''topic'', ''skill:python''], payload = letters\<rparr> in
      case encode ext env of
        None \<Rightarrow> False
      | Some json_bytes \<Rightarrow> length (encode_binary ext env) * 3 < length json_bytes)"

definition decode_rejects_garbage_first_byte :: "codecs \<Rightarrow> bool" where
  "decode_rejects_garbage_first_byte ext =
     (decode ext (as_bytes ''xyz garbage'') = Err (InvalidMagic (of_char CHR ''x'')))"

definition is_truncated :: "envelope_error + record_envelope \<Rightarrow> bool" where
  "is_truncated r = (case r of Err (Truncated _ _) \<Rightarrow> True | _ \<Rightarrow> False)"

definition decode_rejects_empty_buffer :: "codecs \<Rightarrow> bool" where
  "decode_rejects_empty_buffer ext = is_truncated (decode ext [])"

definition decode_rejects_truncated_binary :: "codecs \<Rightarrow> bool" where
  "decode_rejects_truncated_binary ext =
     (let b = encode_binary ext (sample ''hello'') in
      is_truncated (decode ext (take (length b - 2) b)))"

definition flip_at :: "nat \<Rightarrow> bytes \<Rightarrow> bytes" where
  "flip_at i b = b[i := b ! i XOR 0xFF]"

definition decode_detects_crc_corruption :: "codecs \<Rightarrow> bool" where
  "decode_detects_crc_corruption ext =
     (let env = sample ''hello''; b = encode_binary ext env;
          payload_start = length b - length (payload env) - 4 in
      case decode ext (flip_at payload_start b) of Err (CrcMismatch _ _) \<Rightarrow> True | _ \<Rightarrow> False)"

definition decode_rejects_reserved_flags :: "codecs \<Rightarrow> bool" where
  "decode_rejects_reserved_flags ext =
     (let b = encode_binary ext (sample ''hi'') in
      case decode ext (b[1 := b ! 1 OR 0x80]) of Err (ReservedFlagsSet _) \<Rightarrow> True | _ \<Rightarrow> False)"

definition binary_zstd_round_trip :: "codecs \<Rightarrow> bool" where
  "binary_zstd_round_trip ext =
     (let env = sample ''hello world this is a longer payload to be compressed'';
          b = encode_binary_zstd ext env DEFAULT_ZSTD_LEVEL in
      take 1 b = [BINARY_MAGIC] \<and> b ! 1 AND FLAG_ZSTD_PAYLOAD \<noteq> 0 \<and> decode ext b = Ok env)"

definition binary_zstd_round_trip_large_compressible :: "codecs \<Rightarrow> bool" where
  "binary_zstd_round_trip_large_compressible ext =
     (let env = \<lparr>shareable = True, tags = [''doc''],
          payload = concat (replicate 2000 (as_bytes ''lorem ipsum dolor sit amet ''))\<rparr> in
      decode ext (encode_binary_zstd ext env DEFAULT_ZSTD_LEVEL) = Ok env)"

definition binary_zstd_corrupt_frame_returns_error :: "codecs \<Rightarrow> bool" where
  "binary_zstd_corrupt_frame_returns_error ext =
     (let b = encode_binary_zstd ext (sample ''hello world payload'') DEFAULT_ZSTD_LEVEL;
          payload_start = length b - 4 - 1 in
      case decode ext (flip_at payload_start b) of
        Err (CrcMismatch _ _) \<Rightarrow> True | Err (ZstdDecompress _) \<Rightarrow> True | _ \<Rightarrow> False)"

definition binary_zstd_empty_payload_round_trip :: "codecs \<Rightarrow> bool" where
  "binary_zstd_empty_payload_round_trip ext =
     (let env = \<lparr>shareable = False, tags = [''e''], payload = []\<rparr> in
      decode ext (encode_binary_zstd ext env DEFAULT_ZSTD_LEVEL) = Ok env)"

definition envelope_key_is_predictable :: bool where
  "envelope_key_is_predictable =
     (envelope_key_for 42 = ''hansa:rec:42'' \<and> envelope_key_for 0 = ''hansa:rec:0'')"

definition binary_format_round_trip_through_decode_binary :: "codecs \<Rightarrow> bool" where
  "binary_format_round_trip_through_decode_binary ext =
     (case encode ext (sample ''a'') of
        None \<Rightarrow> False
      | Some json \<Rightarrow> (case decode_binary ext json of Err (InvalidMagic _) \<Rightarrow> True | _ \<Rightarrow> False))"

text \<open>The two tests that compare the sizes of the encodings.\<close>

definition fox :: bytes where
  "fox = concat (replicate 500 (as_bytes ''the quick brown fox jumps over the lazy dog. ''))"

definition binary_zstd_beats_plain_on_text_payload :: "codecs \<Rightarrow> bool" where
  "binary_zstd_beats_plain_on_text_payload ext =
     (let env = \<lparr>shareable = False, tags = [''x''], payload = fox\<rparr>;
          plain = encode_binary ext env; zstd = encode_binary_zstd ext env DEFAULT_ZSTD_LEVEL in
      length zstd * 4 < length plain)"

definition many_as :: bytes where
  "many_as = concat (replicate 300 (as_bytes ''aaaaaaaaaa ''))"

definition binary_zstd_smallest_picks_shorter_per_payload :: "codecs \<Rightarrow> bool" where
  "binary_zstd_smallest_picks_shorter_per_payload ext =
     (let text_env = envelope_new True [] many_as; tiny_env = envelope_new True [] (as_bytes ''hi'') in
      encode_binary_smallest ext text_env = encode_binary_zstd ext text_env DEFAULT_ZSTD_LEVEL \<and>
      encode_binary_smallest ext tiny_env = encode_binary ext tiny_env)"

text \<open>The tests that pass whatever zstd achieves.\<close>

definition envelope_suite :: "codecs \<Rightarrow> bool" where
  "envelope_suite ext \<longleftrightarrow>
    json_round_trip_back_compat ext \<and> binary_round_trip ext \<and>
    binary_round_trip_empty_tags_empty_payload ext \<and> binary_round_trip_unicode_tags ext \<and>
    binary_round_trip_large_payload ext \<and> binary_is_smaller_than_json_for_text_payloads ext \<and>
    decode_rejects_garbage_first_byte ext \<and> decode_rejects_empty_buffer ext \<and>
    decode_rejects_truncated_binary ext \<and> decode_detects_crc_corruption ext \<and>
    decode_rejects_reserved_flags ext \<and> binary_zstd_round_trip ext \<and>
    binary_zstd_round_trip_large_compressible ext \<and> binary_zstd_corrupt_frame_returns_error ext \<and>
    binary_zstd_empty_payload_round_trip ext \<and> envelope_key_is_predictable \<and>
    binary_format_round_trip_through_decode_binary ext"

section \<open>What they need of the other crates\<close>

text \<open>
  \<open>serde_json\<close> reads back what it wrote, and writes a byte string as an array of decimal
  numbers; \<open>zstd\<close> compresses without an error into a frame that is not empty and within its
  compression bound.
\<close>

definition json_sizes :: "codecs \<Rightarrow> bool" where
  "json_sizes ext \<longleftrightarrow>
     (\<forall>e js. json_to_vec ext e = Ok js \<longrightarrow>
        sum_list (map (\<lambda>b. length (show_nat (unat b)) + 1) (payload e)) \<le> length js)"

definition zstd_frames :: "codecs \<Rightarrow> bool" where
  "zstd_frames ext \<longleftrightarrow>
     (\<forall>p level. \<exists>c. zstd_compress ext p level = Ok c \<and> c \<noteq> [] \<and>
        length c \<le> length p + length p div 256 + 64)"

definition codecs_ok :: "codecs \<Rightarrow> bool" where
  "codecs_ok ext \<longleftrightarrow> (\<forall>e. json_law ext e) \<and> json_sizes ext \<and> zstd_law ext \<and> zstd_frames ext \<and>
     crc_detects_byte ext"

section \<open>They pass\<close>

lemma storable_sample: "length p < 1000 \<Longrightarrow> storable (sample p)"
  by (simp add: storable_def tags_ok_def tag_ok_def payload_ok_def sample_def utf8_valid_ascii)

lemma take_1_sealed [simp]: "take (Suc 0) (sealed ext (body_of z e p)) = [BINARY_MAGIC]"
  by (simp add: sealed_def body_of_def wire_def)

lemma decode_back: "storable e \<Longrightarrow> decode ext (encode_binary ext e) = Ok e"
  using decode_encode_binary_dispatch [of e ext "[]"] by simp

lemma unicode_tags_ok: "tags_ok unicode_tags"
proof -
  have "utf8_scan 0 [0x63, 0x61, 0x66, 0xC3, 0xA9] = None" by code_simp
  moreover have "utf8_scan 0 [0xE6, 0x97, 0xA5, 0xE6, 0x9C, 0xAC, 0xE8, 0xAA, 0x9E] = None" by code_simp
  moreover have "utf8_scan 0 [0xF0, 0x9F, 0xA6, 0x80] = None" by code_simp
  ultimately show ?thesis
    by (simp add: tags_ok_def tag_ok_def unicode_tags_def utf8_valid_def del: string_of_simps)
qed

lemma binary_tests:
  "binary_round_trip ext" "binary_round_trip_empty_tags_empty_payload ext"
  "binary_round_trip_unicode_tags ext" "binary_round_trip_large_payload ext"
proof -
  show "binary_round_trip ext"
    using storable_sample [of "''hello world''"]
    by (simp add: binary_round_trip_def decode_back) (simp add: encode_binary_sealed)
  show "binary_round_trip_empty_tags_empty_payload ext"
    by (simp add: binary_round_trip_empty_tags_empty_payload_def decode_back storable_def tags_ok_def payload_ok_def)
  show "binary_round_trip_unicode_tags ext"
    by (simp add: binary_round_trip_unicode_tags_def decode_back storable_def unicode_tags_ok payload_ok_def)
  show "binary_round_trip_large_payload ext"
    by (simp add: binary_round_trip_large_payload_def decode_back storable_def tags_ok_def tag_ok_def
        payload_ok_def utf8_valid_ascii)
qed

lemma refusal_tests:
  "decode_rejects_garbage_first_byte ext" "decode_rejects_empty_buffer ext"
  "decode_rejects_reserved_flags ext" "envelope_key_is_predictable"
proof -
  show "decode_rejects_garbage_first_byte ext"
    by (simp add: decode_rejects_garbage_first_byte_def decode_def as_bytes_def JSON_MAGIC_def BINARY_MAGIC_def)
  show "decode_rejects_empty_buffer ext"
    by (simp add: decode_rejects_empty_buffer_def is_truncated_def decode_def)
  have "decode ext (BINARY_MAGIC # (fl OR 0x80) # r) = Err (ReservedFlagsSet (fl OR 0x80))" for fl r
  proof -
    have "(fl OR 0x80) AND FLAG_RESERVED_MASK \<noteq> 0"
    proof
      assume "(fl OR 0x80) AND FLAG_RESERVED_MASK = 0"
      then have "bit ((fl OR 0x80) AND FLAG_RESERVED_MASK) 7 = bit (0 :: u8) 7" by simp
      then show False by (simp add: bit_simps FLAG_RESERVED_MASK_def flag_defs)
    qed
    moreover have "read_u8 (adv 1 (cursor_new (BINARY_MAGIC # (fl OR 0x80) # r))) =
        Ok (fl OR 0x80, adv 2 (cursor_new (BINARY_MAGIC # (fl OR 0x80) # r)))"
      using u8f.rd_wr [of "adv 1 (cursor_new (BINARY_MAGIC # (fl OR 0x80) # r))" "fl OR 0x80" r]
      by (simp add: in_buf_adv)
    ultimately show ?thesis
      by (simp add: decode_def decode_binary_steps read_first BINARY_MAGIC_def JSON_MAGIC_def)
  qed
  then show "decode_rejects_reserved_flags ext"
    by (simp add: decode_rejects_reserved_flags_def Let_def encode_binary_sealed sealed_def body_of_def wire_def)
  show "envelope_key_is_predictable"
    by (simp add: envelope_key_is_predictable_def envelope_key_for_def ENVELOPE_KEY_PREFIX_def show_u64_def
        show_nat.simps digit_char_def char_of_def bit_simps)
qed

text \<open>A changed byte of the stored payload, compressed or not.\<close>

lemma decode_changed:
  assumes "crc_detects_byte ext" "tags_ok (tags e)" "payload_ok (a @ x # c)" "y \<noteq> x"
  shows "\<exists>s g. decode ext (body_of z e (a @ y # c) @ u32_to_le (crc32c ext (body_of z e (a @ x # c)))) =
    Err (CrcMismatch s g)"
proof -
  let ?w = "\<lambda>v. wire (envelope_flags (shareable e) z) (tags e) (a @ v # c)"
  have "crc32c ext (?w x) \<noteq> crc32c ext (?w y)"
  proof -
    have w: "?w v = ([BINARY_MAGIC, envelope_flags (shareable e) z] @ tags_wr (tags e) @
        u32_to_le (of_nat (length (a @ x # c))) @ a) @ v # c" for v
      by (simp add: wire_def payload_wr_def)
    show ?thesis unfolding w using assms(1,4) unfolding crc_detects_byte_def by metis
  qed
  then have "decode_binary ext (?w y @ u32_to_le (crc32c ext (?w x))) =
      Err (CrcMismatch (crc32c ext (?w x)) (crc32c ext (?w y)))"
    using decode_wire [OF _ assms(2), of "envelope_flags (shareable e) z" "a @ y # c" _
        "crc32c ext (?w x)" "[]" ext] assms(3) by (simp add: payload_ok_def)
  then show ?thesis
    by (simp add: body_of_def decode_def wire_def BINARY_MAGIC_def JSON_MAGIC_def)
qed

text \<open>Where \<open>flip_at\<close> changes the payload of an encoding.\<close>

lemma flip_sealed:
  assumes "p = a @ x # c" and "i = length (sealed ext (body_of z e p)) - 4 - length (x # c)"
  shows "flip_at i (sealed ext (body_of z e p)) =
    body_of z e (a @ (x XOR 0xFF) # c) @ u32_to_le (crc32c ext (body_of z e p))"
proof -
  define h where "h = [BINARY_MAGIC, envelope_flags (shareable e) z] @ tags_wr (tags e) @
      u32_to_le (of_nat (length p)) @ a"
  have b: "sealed ext (body_of z e p) = h @ x # c @ u32_to_le (crc32c ext (body_of z e p))"
    by (simp add: h_def assms(1) sealed_def body_of_def wire_def payload_wr_def)
  have i: "i = length h" unfolding assms(2) b by simp
  have "body_of z e (a @ (x XOR 0xFF) # c) = h @ (x XOR 0xFF) # c"
    by (simp add: h_def assms(1) body_of_def wire_def payload_wr_def)
  then show ?thesis unfolding b i flip_at_def by simp
qed

lemma xor_changes: "(x :: u8) XOR 0xFF \<noteq> x"
proof
  assume "x XOR 0xFF = x"
  then have "bit (x XOR 0xFF) 0 = bit x 0" by simp
  then show False by (simp add: bit_simps)
qed

lemma corruption_found:
  assumes "crc_detects_byte ext" "tags_ok (tags e)" "payload_ok p" "p = a @ x # c"
    and "i = length (sealed ext (body_of z e p)) - 4 - length (x # c)"
  shows "\<exists>s g. decode ext (flip_at i (sealed ext (body_of z e p))) = Err (CrcMismatch s g)"
  unfolding flip_sealed [OF assms(4,5)]
  using decode_changed [OF assms(1,2) _ xor_changes, of a x c z] assms(3,4) by simp

lemma corruption_tests:
  assumes "crc_detects_byte ext" and "zstd_frames ext"
  shows "decode_detects_crc_corruption ext" "binary_zstd_corrupt_frame_returns_error ext"
    "decode_rejects_truncated_binary ext"
proof -
  have p: "payload (sample ''hello'') = [] @ 0x68 # as_bytes ''ello''" by (simp add: sample_def)
  have "storable (sample ''hello'')" by (rule storable_sample) simp
  with corruption_found [OF assms(1) _ _ p refl, of "sample ''hello''" False]
  show "decode_detects_crc_corruption ext"
    by (auto simp: decode_detects_crc_corruption_def Let_def encode_binary_sealed storable_def
        sample_def split: sum.split)
  obtain c where c: "zstd_compress ext (payload (sample ''hello world payload'')) DEFAULT_ZSTD_LEVEL = Ok c"
      "c \<noteq> []" "length c \<le> 200"
    using assms(2) unfolding zstd_frames_def by (fastforce simp: sample_def)
  have "storable (sample ''hello world payload'')" by (rule storable_sample) simp
  moreover have "c = butlast c @ last c # []" using c(2) by simp
  moreover have "payload_ok c" using c(3) by (simp add: payload_ok_def)
  ultimately show "binary_zstd_corrupt_frame_returns_error ext"
    using corruption_found [OF assms(1), of "sample ''hello world payload''" c "butlast c" "last c" "[]"
        "length (sealed ext (body_of True (sample ''hello world payload'') c)) - 4 - 1" True] c(1)
    by (auto simp: binary_zstd_corrupt_frame_returns_error_def Let_def encode_binary_zstd_sealed storable_def)
  show "decode_rejects_truncated_binary ext"
  proof -
    let ?b = "encode_binary ext (sample ''hello'')"
    have len: "length ?b - 2 < length ?b" "1 < length ?b - 2"
      by (simp_all add: encode_binary_sealed sealed_def body_of_def wire_def payload_wr_def)
    have "storable (sample ''hello'')" by (rule storable_sample) simp
    from truncated_prefix [OF this len(1)] obtain k where
      k: "decode_binary ext (take (length ?b - 2) ?b) = Err (Truncated k (length ?b - 2))" by blast
    obtain r where "?b = BINARY_MAGIC # r"
      by (simp add: encode_binary_sealed sealed_def body_of_def wire_def)
    then obtain r' where "take (length ?b - 2) ?b = BINARY_MAGIC # r'"
      using len(2) by (cases "length ?b - 2") auto
    then have "decode ext (take (length ?b - 2) ?b) = decode_binary ext (take (length ?b - 2) ?b)"
      by (simp add: decode_def BINARY_MAGIC_def JSON_MAGIC_def)
    with k show ?thesis by (simp add: decode_rejects_truncated_binary_def Let_def is_truncated_def)
  qed
qed

lemma zstd_tests:
  assumes "zstd_law ext" and "zstd_frames ext"
  shows "binary_zstd_round_trip ext" "binary_zstd_round_trip_large_compressible ext"
    "binary_zstd_empty_payload_round_trip ext"
proof -
  have rt: "decode ext (encode_binary_zstd ext e DEFAULT_ZSTD_LEVEL) = Ok e"
    if "tags_ok (tags e)" "length (payload e) \<le> 60000" for e
  proof -
    have "payload_ok c" if "zstd_compress ext (payload e) DEFAULT_ZSTD_LEVEL = Ok c" for c
    proof -
      have "length c \<le> length (payload e) + length (payload e) div 256 + 64"
        using assms(2) that unfolding zstd_frames_def by (metis sum.inject(2))
      moreover have "length (payload e) div 256 \<le> 60000"
        using \<open>length (payload e) \<le> 60000\<close> div_le_dividend order_trans by blast
      ultimately show ?thesis using \<open>length (payload e) \<le> 60000\<close> by (simp add: payload_ok_def)
    qed
    with decode_zstd_small [OF assms(1) that(1), of DEFAULT_ZSTD_LEVEL "[]"] that(2) show ?thesis
      by (simp add: ZSTD_MAX_DECOMPRESSED_SIZE_def)
  qed
  have tag: "tag_ok t" if "t \<in> {''doc'', ''e''}" for t
    using that by (auto simp: tag_ok_def utf8_valid_ascii)
  let ?e = "sample ''hello world this is a longer payload to be compressed''"
  obtain c where "zstd_compress ext (payload ?e) DEFAULT_ZSTD_LEVEL = Ok c"
    using assms(2) unfolding zstd_frames_def by blast
  then have "encode_binary_zstd ext ?e DEFAULT_ZSTD_LEVEL = sealed ext (body_of True ?e c)"
    by (simp add: encode_binary_zstd_sealed)
  moreover have "tags_ok (tags ?e)"
    using storable_sample [of "''x''"] by (simp add: storable_def sample_def)
  ultimately show "binary_zstd_round_trip ext"
    using rt [of ?e] by (simp add: binary_zstd_round_trip_def Let_def sample_def)
  show "binary_zstd_round_trip_large_compressible ext"
    unfolding binary_zstd_round_trip_large_compressible_def Let_def
    by (rule rt) (simp_all add: tags_ok_def tag length_concat sum_list_replicate)
  show "binary_zstd_empty_payload_round_trip ext"
    unfolding binary_zstd_empty_payload_round_trip_def Let_def
    by (rule rt) (simp_all add: tags_ok_def tag)
qed

text \<open>
  The tests of sizes, in terms of the size of the compressed payload: the two encodings of a
  record differ in that payload and in a flag only.
\<close>

definition zstd_size :: "codecs \<Rightarrow> bytes \<Rightarrow> nat" where
  "zstd_size ext p = (case zstd_compress ext p DEFAULT_ZSTD_LEVEL of Ok c \<Rightarrow> length c | Err _ \<Rightarrow> length p)"

lemma encoding_lengths:
  assumes "zstd_frames ext"
  shows "length (encode_binary ext e) = 12 + length (encode_tags (tags e)) + length (payload e)"
    and "length (encode_binary_zstd ext e DEFAULT_ZSTD_LEVEL) =
      12 + length (encode_tags (tags e)) + zstd_size ext (payload e)"
    and "encode_binary ext e \<noteq> encode_binary_zstd ext e DEFAULT_ZSTD_LEVEL"
proof -
  obtain c where c: "zstd_compress ext (payload e) DEFAULT_ZSTD_LEVEL = Ok c"
    using assms unfolding zstd_frames_def by blast
  show "length (encode_binary ext e) = 12 + length (encode_tags (tags e)) + length (payload e)"
    by (simp add: encode_binary_sealed sealed_def body_of_def wire_def tags_wr_def payload_wr_def)
  show "length (encode_binary_zstd ext e DEFAULT_ZSTD_LEVEL) =
      12 + length (encode_tags (tags e)) + zstd_size ext (payload e)"
    using c by (simp add: zstd_size_def encode_binary_zstd_sealed sealed_def body_of_def wire_def
        tags_wr_def payload_wr_def)
  have "envelope_flags (shareable e) False \<noteq> envelope_flags (shareable e) True"
    by (metis envelope_flags_bits(3))
  then have "encode_binary ext e ! 1 \<noteq> encode_binary_zstd ext e DEFAULT_ZSTD_LEVEL ! 1"
    using c by (simp add: encode_binary_sealed encode_binary_zstd_sealed sealed_def body_of_def wire_def)
  then show "encode_binary ext e \<noteq> encode_binary_zstd ext e DEFAULT_ZSTD_LEVEL" by metis
qed

lemma size_tests:
  assumes "zstd_frames ext"
  shows "binary_zstd_beats_plain_on_text_payload ext \<longleftrightarrow> zstd_size ext fox \<le> 5613"
    and "binary_zstd_smallest_picks_shorter_per_payload ext \<longleftrightarrow>
      zstd_size ext many_as < 3300 \<and> 2 \<le> zstd_size ext (as_bytes ''hi'')"
proof -
  note len = encoding_lengths [OF assms]
  have fox: "length fox = 22500" and many: "length many_as = 3300"
    by (simp_all add: fox_def many_as_def length_concat sum_list_replicate)
  have zstd: "encode_binary_smallest ext e = encode_binary_zstd ext e DEFAULT_ZSTD_LEVEL \<longleftrightarrow>
      zstd_size ext (payload e) < length (payload e)"
    and plain: "encode_binary_smallest ext e = encode_binary ext e \<longleftrightarrow>
      length (payload e) \<le> zstd_size ext (payload e)" for e
    using len(3) [of e] by (auto simp: encode_binary_smallest_def Let_def len(1,2))
  show "binary_zstd_beats_plain_on_text_payload ext \<longleftrightarrow> zstd_size ext fox \<le> 5613"
    by (auto simp: binary_zstd_beats_plain_on_text_payload_def Let_def len(1,2) encode_tag_def fox)
  show "binary_zstd_smallest_picks_shorter_per_payload ext \<longleftrightarrow>
      zstd_size ext many_as < 3300 \<and> 2 \<le> zstd_size ext (as_bytes ''hi'')"
    unfolding binary_zstd_smallest_picks_shorter_per_payload_def Let_def zstd plain
    by (simp add: envelope_new_def many numeral_2_eq_2)
qed

text \<open>A letter takes two or three digits and a comma, so at least 13 bytes every four letters.\<close>

lemma show_nat_letter: "k < 26 \<Longrightarrow> length (show_nat (97 + k)) = (if k < 3 then 2 else 3)"
proof -
  have "list_all (\<lambda>k. length (show_nat (97 + k)) = (if k < 3 then 2 else 3)) [0..<26]" by code_simp
  then show "k < 26 \<Longrightarrow> ?thesis" by (simp add: list_all_iff)
qed

definition letter_width :: "nat \<Rightarrow> nat" where
  "letter_width i = (if i mod 26 < 3 then 3 else 4)"

lemma letters_widths: "map (\<lambda>b. length (show_nat (unat b)) + 1) letters = map letter_width [0..<1024]"
proof -
  have "unat (of_nat (i mod 26) + of_char CHR ''a'' :: u8) = 97 + i mod 26" for i
  proof -
    have "(of_nat (i mod 26) + of_char CHR ''a'' :: u8) = of_nat (97 + i mod 26)" by simp
    moreover have "i mod 26 < 26" by simp
    ultimately show ?thesis by (simp only: unat_of_nat) simp
  qed
  then have "length (show_nat (unat (of_nat (i mod 26) + of_char CHR ''a'' :: u8))) + 1 = letter_width i" for i
    using show_nat_letter [of "i mod 26"] by (simp only: letter_width_def) simp
  then show ?thesis unfolding letters_def map_map o_def by (simp only:)
qed

lemma four_letters: "13 \<le> letter_width i + letter_width (i + 1) + letter_width (i + 2) + letter_width (i + 3)"
proof -
  have ge: "3 \<le> letter_width j" for j by (simp add: letter_width_def)
  have "(i + 3) mod 26 = i mod 26 + 3" if "i mod 26 < 3"
  proof -
    have "(i + 3) mod 26 = (i mod 26 + 3) mod 26" by (rule mod_add_left_eq [symmetric])
    also have "\<dots> = i mod 26 + 3" using that by (intro mod_less) simp
    finally show ?thesis .
  qed
  then have "letter_width i = 4 \<or> letter_width (i + 3) = 4" by (auto simp: letter_width_def)
  with ge [of i] ge [of "i + 1"] ge [of "i + 2"] ge [of "i + 3"] show ?thesis by linarith
qed

lemma letters_sum: "13 * k \<le> sum_list (map letter_width [0..<4 * k])"
proof (induction k)
  case (Suc k)
  have "[0..<n + 4] = [0..<n] @ [n, n + 1, n + 2, n + 3]" for n
    by (simp add: eval_nat_numeral)
  then have "[0..<4 * Suc k] = [0..<4 * k] @ [4 * k, 4 * k + 1, 4 * k + 2, 4 * k + 3]"
    by (metis add.commute mult_Suc_right)
  then have "sum_list (map letter_width [0..<4 * Suc k]) = sum_list (map letter_width [0..<4 * k]) +
      (letter_width (4 * k) + letter_width (4 * k + 1) + letter_width (4 * k + 2) + letter_width (4 * k + 3))"
    by simp
  moreover have "13 * Suc k = 13 * k + 13" by simp
  ultimately show ?case using Suc four_letters [of "4 * k"] by presburger
qed simp

lemma json_tests:
  assumes "\<forall>e. json_law ext e" and "json_sizes ext"
  shows "json_round_trip_back_compat ext" "binary_is_smaller_than_json_for_text_payloads ext"
    "binary_format_round_trip_through_decode_binary ext"
proof -
  have enc: "\<exists>js. encode ext e = Some (JSON_MAGIC # js) \<and> json_to_vec ext e = Ok (JSON_MAGIC # js) \<and>
      decode ext (JSON_MAGIC # js) = Ok e" for e
  proof -
    obtain js where "json_to_vec ext e = Ok (JSON_MAGIC # js)" "json_from_slice ext (JSON_MAGIC # js) = Ok e"
      using assms(1) unfolding json_law_def by blast
    then show ?thesis by (intro exI [of _ js]) (simp add: encode_def decode_def)
  qed
  show "json_round_trip_back_compat ext"
    using enc [of "sample ''hello world''"] by (auto simp: json_round_trip_back_compat_def Let_def)
  have "decode_binary ext (JSON_MAGIC # js) = Err (InvalidMagic JSON_MAGIC)" for js
    by (simp add: decode_binary_steps read_first JSON_MAGIC_def BINARY_MAGIC_def)
  then show "binary_format_round_trip_through_decode_binary ext"
    using enc [of "sample ''a''"] by (auto simp: binary_format_round_trip_through_decode_binary_def)
  let ?e = "\<lparr>shareable = True, tags = [''topic'', ''skill:python''], payload = letters\<rparr>"
  obtain js where js: "encode ext ?e = Some (JSON_MAGIC # js)" "json_to_vec ext ?e = Ok (JSON_MAGIC # js)"
    using enc by blast
  have "sum_list (map (\<lambda>b. length (show_nat (unat b)) + 1) (payload ?e)) \<le> length (JSON_MAGIC # js)"
    using assms(2) js(2) unfolding json_sizes_def by blast
  then have "13 * 256 \<le> length (JSON_MAGIC # js)"
    using letters_sum [of 256] letters_widths by simp
  moreover have "length (encode_binary ext ?e) = 1057"
    by (simp add: encode_binary_sealed sealed_def body_of_def wire_def tags_wr_def payload_wr_def
        encode_tag_def letters_def)
  ultimately show "binary_is_smaller_than_json_for_text_payloads ext"
    using js(1) by (simp add: binary_is_smaller_than_json_for_text_payloads_def Let_def)
qed

section \<open>The theorem\<close>

text \<open>
  Codecs that keep the laws: JSON that starts with a brace, the record as a number in unary
  and some room, and compression that puts a zero in front.
\<close>

definition json_size :: "record_envelope \<Rightarrow> nat" where
  "json_size e = sum_list (map (\<lambda>b. length (show_nat (unat b)) + 1) (payload e))"

definition unary_codecs :: codecs where
  "unary_codecs =
     \<lparr>json_to_vec = (\<lambda>e. Ok (JSON_MAGIC # replicate (to_nat (shareable e, tags e, payload e)) 1 @
        replicate (Suc (json_size e)) 0)),
      json_from_slice = (\<lambda>b. case from_nat (length (takeWhile (\<lambda>x. x = 1) (tl b))) of
        (sh, ts, p) \<Rightarrow> Ok \<lparr>shareable = sh, tags = ts, payload = p\<rparr>),
      crc32c = byte_sum, zstd_compress = (\<lambda>p _. Ok (0 # p)),
      zstd_decompress = (\<lambda>p cap. if length (tl p) \<le> cap then Ok (tl p) else Err ''too large'')\<rparr>"

lemma unary_codecs_ok: "codecs_ok unary_codecs"
proof -
  have "takeWhile (\<lambda>x. x = 1) (replicate n (1 :: u8) @ 0 # r) = replicate n 1" for n r
    by (induction n) simp_all
  then have "json_law unary_codecs e" for e
    by (cases e) (simp add: json_law_def unary_codecs_def)
  moreover have "json_sizes unary_codecs"
    by (auto simp: json_sizes_def unary_codecs_def json_size_def)
  moreover have "zstd_law unary_codecs" "zstd_frames unary_codecs"
    by (simp_all add: zstd_law_def zstd_frames_def unary_codecs_def)
  moreover have "crc_detects_byte unary_codecs"
    using sample_codecs_crc by (simp add: crc_detects_byte_def unary_codecs_def sample_codecs_def)
  ultimately show ?thesis by (simp add: codecs_ok_def)
qed

lemma envelope_tests:
  assumes "codecs_ok ext"
  shows "envelope_suite ext"
    and "binary_zstd_beats_plain_on_text_payload ext \<longleftrightarrow> zstd_size ext fox \<le> 5613"
    and "binary_zstd_smallest_picks_shorter_per_payload ext \<longleftrightarrow>
      zstd_size ext many_as < 3300 \<and> 2 \<le> zstd_size ext (as_bytes ''hi'')"
proof -
  have laws: "\<forall>e. json_law ext e" "json_sizes ext" "zstd_law ext" "zstd_frames ext" "crc_detects_byte ext"
    using assms by (simp_all add: codecs_ok_def)
  show "envelope_suite ext"
    unfolding envelope_suite_def
    using binary_tests refusal_tests corruption_tests [OF laws(5,4)] zstd_tests [OF laws(3,4)]
      json_tests [OF laws(1,2)] by blast
qed (use assms size_tests in \<open>simp_all add: codecs_ok_def\<close>)

end
