(* ===== verification/Pool.thy ===== *)
theory Pool
  imports Prelude
begin

text \<open>
  The connection pool (\<open>pool.rs\<close>): its configuration, the state its mutex guards and the
  critical sections that change it. The connections are of any type; an \<open>Instant\<close> and a
  \<open>Duration\<close> are a number of nanoseconds. The threads that share a pool are the subject of
  the theory \<open>PoolSteps\<close>.
\<close>

record pool_config =
  max_idle :: nat
  max_total :: nat
  idle_timeout :: nat

definition default_config :: pool_config where
  "default_config = \<lparr>max_idle = 4, max_total = 16, idle_timeout = 60 * 1000000000\<rparr>"

record 'c pool_state =
  idle :: "('c \<times> nat) list"
  in_use :: nat

record 'c resp3_pool =
  endpoint :: string
  auth :: "(string \<times> string) option"
  config :: pool_config
  pstate :: "'c pool_state"

definition pool_with_config ::
  "string \<Rightarrow> (string \<times> string) option \<Rightarrow> pool_config \<Rightarrow> 'c resp3_pool"
where
  "pool_with_config ep au cfg =
     \<lparr>endpoint = ep, auth = au, config = cfg, pstate = \<lparr>idle = [], in_use = 0\<rparr>\<rparr>"

definition pool_new :: "string \<Rightarrow> 'c resp3_pool" where
  "pool_new ep = pool_with_config ep None default_config"

definition pool_with_auth :: "string \<Rightarrow> string \<times> string \<Rightarrow> 'c resp3_pool" where
  "pool_with_auth ep au = pool_with_config ep (Some au) default_config"

text \<open>
  One pass of the loop of \<open>acquire\<close>, from taking the mutex to releasing it: the inner loop
  drops idle connections that waited too long, then an idle connection is handed out, a
  reservation for a new one is made, or the caller has to wait.
\<close>

fun evict :: "nat \<Rightarrow> nat \<Rightarrow> ('c \<times> nat) list \<Rightarrow> ('c \<times> nat) list" where
  "evict timeout now [] = []"
| "evict timeout now ((c, ts) # r) =
     (if now - ts < timeout then (c, ts) # r else evict timeout now r)"

datatype 'c attempt = Reuse 'c | Reserve | AtCap

definition try_acquire :: "nat \<Rightarrow> pool_config \<Rightarrow> 'c pool_state \<Rightarrow> 'c attempt \<times> 'c pool_state" where
  "try_acquire now cfg st =
     (case evict (idle_timeout cfg) now (idle st) of
        (c, _) # r \<Rightarrow> (Reuse c, st\<lparr>idle := r, in_use := in_use st + 1\<rparr>)
      | [] \<Rightarrow>
          (if in_use st < max_total cfg
           then (Reserve, st\<lparr>idle := [], in_use := in_use st + 1\<rparr>)
           else (AtCap, st\<lparr>idle := []\<rparr>)))"

text \<open>
  \<open>in_use -= 1\<close> on a \<open>usize\<close>: \<open>None\<close> when it would underflow. The branch of \<open>acquire\<close> for a
  failed connect, and \<open>Drop\<close> for a guard, which gives its connection back unless the guard
  was discarded or the idle queue is full. Both then notify one waiter.
\<close>

definition leave :: "'c pool_state \<Rightarrow> 'c pool_state option" where
  "leave st = (if in_use st = 0 then None else Some (st\<lparr>in_use := in_use st - 1\<rparr>))"

definition connect_failed :: "'c pool_state \<Rightarrow> 'c pool_state option" where
  "connect_failed st = leave st"

record 'c pooled_connection =
  conn :: "'c option"

definition discard :: "'c pooled_connection \<Rightarrow> 'c pooled_connection" where
  "discard g = g\<lparr>conn := None\<rparr>"

definition drop_guard ::
  "nat \<Rightarrow> pool_config \<Rightarrow> 'c pooled_connection \<Rightarrow> 'c pool_state \<Rightarrow> 'c pool_state option"
where
  "drop_guard now cfg g st =
     Option.bind (leave st) (\<lambda>st. Some (case conn g of
        Some c \<Rightarrow>
          (if length (idle st) < max_idle cfg then st\<lparr>idle := idle st @ [(c, now)]\<rparr> else st)
      | None \<Rightarrow> st))"

definition idle_count :: "'c resp3_pool \<Rightarrow> nat" where
  "idle_count p = length (idle (pstate p))"

definition in_use_count :: "'c resp3_pool \<Rightarrow> nat" where
  "in_use_count p = in_use (pstate p)"

section \<open>The idle queue\<close>

text \<open>Still fresh enough to be handed out.\<close>

definition fresh_at :: "pool_config \<Rightarrow> nat \<Rightarrow> 'c \<times> nat \<Rightarrow> bool" where
  "fresh_at cfg now e \<longleftrightarrow> now - snd e < idle_timeout cfg"

lemma fresh_at_pair [simp]: "fresh_at cfg now (c, ts) \<longleftrightarrow> now - ts < idle_timeout cfg"
  by (simp add: fresh_at_def)

text \<open>The queue of a state: bounded, in order of return, and not from the future.\<close>

definition queue_ok :: "pool_config \<Rightarrow> nat \<Rightarrow> 'c pool_state \<Rightarrow> bool" where
  "queue_ok cfg now st \<longleftrightarrow>
     length (idle st) \<le> max_idle cfg \<and> in_use st + length (idle st) \<le> max_total cfg \<and>
     sorted (map snd (idle st)) \<and> (\<forall>e \<in> set (idle st). snd e \<le> now)"

lemma evict_suffix: "\<exists>old. q = old @ evict t now q"
proof (induction q)
  case (Cons e q)
  then show ?case by (cases e) (auto intro: exI [of _ "e # _"])
qed simp

lemma evict_filter:
  "sorted (map snd q) \<Longrightarrow> evict (idle_timeout cfg) now q = filter (fresh_at cfg now) q"
proof (induction q)
  case (Cons e q)
  have "filter (fresh_at cfg now) q = q" if "fresh_at cfg now e"
    using that Cons.prems by (intro filter_True) (auto simp: fresh_at_def)
  with Cons show ?case by (cases e) simp
qed simp

lemma evict_ConsD: "evict t now q = (c, ts) # r \<Longrightarrow> now - ts < t"
  by (induction q) (auto split: if_splits)

lemma try_acquire_cases:
  obtains (Reuse) c ts r old where "idle st = old @ (c, ts) # r"
      "try_acquire now cfg st = (Reuse c, st\<lparr>idle := r, in_use := in_use st + 1\<rparr>)"
      "now - ts < idle_timeout cfg"
    | (Reserve) "in_use st < max_total cfg"
      "try_acquire now cfg st = (Reserve, st\<lparr>idle := [], in_use := in_use st + 1\<rparr>)"
    | (AtCap) "max_total cfg \<le> in_use st"
      "try_acquire now cfg st = (AtCap, st\<lparr>idle := []\<rparr>)"
proof (cases "evict (idle_timeout cfg) now (idle st)")
  case Nil
  with Reserve AtCap show ?thesis by (cases "in_use st < max_total cfg") (simp_all add: try_acquire_def)
next
  case (Cons e r)
  obtain c ts where e: "e = (c, ts)" by (cases e)
  with Cons have "now - ts < idle_timeout cfg" by (blast intro: evict_ConsD)
  with Cons e evict_suffix [of "idle st" "idle_timeout cfg" now] Reuse show ?thesis
    by (auto simp: try_acquire_def)
qed

lemma queue_ok_new [simp]: "queue_ok cfg now (pstate (pool_with_config ep au cfg))"
  by (simp add: queue_ok_def pool_with_config_def)

lemma queue_ok_later: "queue_ok cfg now st \<Longrightarrow> now \<le> now' \<Longrightarrow> queue_ok cfg now' st"
  by (auto simp: queue_ok_def)

lemma try_acquire_queue_ok:
  "queue_ok cfg now st \<Longrightarrow> try_acquire now cfg st = (r, st') \<Longrightarrow> queue_ok cfg now st'"
  by (cases st now cfg rule: try_acquire_cases) (auto simp: queue_ok_def sorted_append)

lemma leave_Some [simp]:
  "leave st = Some st' \<longleftrightarrow> in_use st \<noteq> 0 \<and> st' = st\<lparr>in_use := in_use st - 1\<rparr>"
  by (auto simp: leave_def)

lemma leave_None [simp]: "leave st = None \<longleftrightarrow> in_use st = 0"
  by (simp add: leave_def)

lemma connect_failed_queue_ok:
  "queue_ok cfg now st \<Longrightarrow> connect_failed st = Some st' \<Longrightarrow> queue_ok cfg now st'"
  by (auto simp: queue_ok_def connect_failed_def)

lemma drop_guard_queue_ok:
  "queue_ok cfg now st \<Longrightarrow> drop_guard now cfg g st = Some st' \<Longrightarrow> queue_ok cfg now st'"
  by (cases "conn g") (auto simp: queue_ok_def drop_guard_def sorted_append bind_eq_Some_conv split: if_splits)

text \<open>With the queue in order, a caller waits exactly when the budget is used up.\<close>

lemma try_acquire_AtCap:
  assumes "queue_ok cfg now st"
  shows "fst (try_acquire now cfg st) = AtCap \<longleftrightarrow> in_use st = max_total cfg"
  using assms by (cases st now cfg rule: try_acquire_cases) (auto simp: queue_ok_def)

lemma try_acquire_fresh:
  assumes "queue_ok cfg now st"
  shows "try_acquire now cfg st =
    (case filter (fresh_at cfg now) (idle st) of
       e # r \<Rightarrow> (Reuse (fst e), st\<lparr>idle := r, in_use := in_use st + 1\<rparr>)
     | [] \<Rightarrow> if in_use st = max_total cfg then (AtCap, st\<lparr>idle := []\<rparr>)
         else (Reserve, st\<lparr>idle := [], in_use := in_use st + 1\<rparr>))"
  using assms unfolding try_acquire_def queue_ok_def
  by (auto simp: evict_filter split: list.splits)

end
