(* ===== verification/PoolSteps.thy ===== *)
theory PoolSteps
  imports Pool "HOL-Library.Multiset"
begin

text \<open>
  Threads that share one pool: a step relation whose steps are the critical sections of
  \<open>pool.rs\<close>, in any interleaving. A call of \<open>acquire\<close> has a number; it is connecting to the
  server outside the mutex, parked on the condition variable, woken and waiting for the
  mutex, or it has returned a guard that a thread holds.
\<close>

section \<open>The step relation\<close>

record 'c threads =
  shared :: "'c pool_state"
  clock :: nat
  connecting :: "nat list"
  parked :: "nat list"
  woken :: "nat list"
  guards :: "(nat \<times> 'c) list"

definition pool_start :: "pool_config \<Rightarrow> nat \<Rightarrow> 'c threads" where
  "pool_start cfg t0 =
     \<lparr>shared = pstate (pool_with_config [] None cfg), clock = t0, connecting = [], parked = [],
      woken = [], guards = []\<rparr>"

definition calls :: "'c threads \<Rightarrow> nat list" where
  "calls s = connecting s @ parked s @ woken s @ map fst (guards s)"

definition sockets :: "'c threads \<Rightarrow> 'c list" where
  "sockets s = map fst (idle (shared s)) @ map snd (guards s)"

text \<open>\<open>notify_one\<close>: some parked thread wakes up, and nothing happens when none is parked.\<close>

inductive notify_one :: "nat list \<Rightarrow> nat list \<Rightarrow> nat list \<Rightarrow> nat list \<Rightarrow> bool" where
  nobody: "notify_one [] w [] w"
| somebody: "notify_one (a @ j # b) w (a @ b) (w @ [j])"

text \<open>Where a call is after a pass of the loop of \<open>acquire\<close>.\<close>

fun enter :: "nat \<Rightarrow> 'c attempt \<Rightarrow> 'c threads \<Rightarrow> 'c threads" where
  "enter i (Reuse c) s = s\<lparr>guards := (i, c) # guards s\<rparr>"
| "enter i Reserve s = s\<lparr>connecting := i # connecting s\<rparr>"
| "enter i AtCap s = s\<lparr>parked := parked s @ [i]\<rparr>"

inductive pool_step :: "pool_config \<Rightarrow> 'c threads \<Rightarrow> 'c threads \<Rightarrow> bool" for cfg where
  call: "i \<notin> set (calls s) \<Longrightarrow> try_acquire (clock s) cfg (shared s) = (r, st) \<Longrightarrow>
    pool_step cfg s (enter i r (s\<lparr>shared := st\<rparr>))"
| resume: "woken s = a @ i # b \<Longrightarrow> try_acquire (clock s) cfg (shared s) = (r, st) \<Longrightarrow>
    pool_step cfg s (enter i r (s\<lparr>woken := a @ b, shared := st\<rparr>))"
| connected: "connecting s = a @ i # b \<Longrightarrow> c \<notin> set (sockets s) \<Longrightarrow>
    pool_step cfg s (s\<lparr>connecting := a @ b, guards := (i, c) # guards s\<rparr>)"
| refused: "connecting s = a @ i # b \<Longrightarrow> connect_failed (shared s) = Some st \<Longrightarrow>
    notify_one (parked s) (woken s) p w \<Longrightarrow>
    pool_step cfg s (s\<lparr>shared := st, connecting := a @ b, parked := p, woken := w\<rparr>)"
| released: "guards s = a @ (i, c) # b \<Longrightarrow>
    drop_guard (clock s) cfg \<lparr>conn = Some c\<rparr> (shared s) = Some st \<Longrightarrow>
    notify_one (parked s) (woken s) p w \<Longrightarrow>
    pool_step cfg s (s\<lparr>shared := st, guards := a @ b, parked := p, woken := w\<rparr>)"
| discarded: "guards s = a @ (i, c) # b \<Longrightarrow>
    drop_guard (clock s) cfg (discard \<lparr>conn = Some c\<rparr>) (shared s) = Some st \<Longrightarrow>
    notify_one (parked s) (woken s) p w \<Longrightarrow>
    pool_step cfg s (s\<lparr>shared := st, guards := a @ b, parked := p, woken := w\<rparr>)"
| spurious: "parked s = a @ i # b \<Longrightarrow>
    pool_step cfg s (s\<lparr>parked := a @ b, woken := woken s @ [i]\<rparr>)"
| later: "pool_step cfg s (s\<lparr>clock := clock s + d\<rparr>)"

inductive_cases notify_oneE: "notify_one p w p' w'"
inductive_simps notify_nobody [simp]: "notify_one [] w p' w'"

section \<open>The invariant\<close>

definition counted :: "'c threads \<Rightarrow> bool" where
  "counted s \<longleftrightarrow> in_use (shared s) = length (connecting s) + length (guards s)"

definition no_lost_wakeup :: "pool_config \<Rightarrow> 'c threads \<Rightarrow> bool" where
  "no_lost_wakeup cfg s \<longleftrightarrow>
     parked s = [] \<or> max_total cfg \<le> in_use (shared s) + length (woken s)"

definition pool_inv :: "pool_config \<Rightarrow> 'c threads \<Rightarrow> bool" where
  "pool_inv cfg s \<longleftrightarrow>
     counted s \<and> queue_ok cfg (clock s) (shared s) \<and> distinct (sockets s) \<and>
     distinct (calls s) \<and> no_lost_wakeup cfg s"

lemmas pool_inv_defs = counted_def no_lost_wakeup_def sockets_def calls_def

lemma pool_inv_start: "pool_inv cfg (pool_start cfg t0)"
  by (simp add: pool_inv_def pool_inv_defs pool_start_def) (simp add: pool_with_config_def)

lemma notify_one_props:
  assumes "notify_one p w p' w'"
  shows "mset (p' @ w') = mset (p @ w)" and "p = [] \<and> p' = [] \<or> p \<noteq> [] \<and> length w' = Suc (length w)"
  using assms by (auto elim!: notify_oneE)

lemma notify_one_distinct:
  assumes "notify_one p w p' w'"
  shows "distinct (xs @ p' @ w' @ ys) = distinct (xs @ p @ w @ ys)"
  using notify_one_props(1) [OF assms] by (intro mset_eq_imp_distinct_iff) simp

text \<open>A pass of the loop, by a new call or a woken one.\<close>

lemma enter_inv:
  assumes inv: "counted s" "queue_ok cfg (clock s) (shared s)" "distinct (sockets s)"
      "distinct (i # calls s)"
    and wake: "parked s = [] \<or> max_total cfg \<le> in_use (shared s) + Suc (length (woken s))"
    and r: "try_acquire (clock s) cfg (shared s) = (r, st)"
    and w: "r = AtCap \<or> parked s = [] \<or> max_total cfg \<le> in_use st + length (woken s)"
  shows "pool_inv cfg (enter i r (s\<lparr>shared := st\<rparr>))"
proof -
  have q: "queue_ok cfg (clock s) st" using try_acquire_queue_ok inv(2) r by blast
  show ?thesis
  proof (cases "shared s" "clock s" cfg rule: try_acquire_cases)
    case (Reuse c ts rest old)
    then have "r = Reuse c" "st = shared s\<lparr>idle := rest, in_use := in_use (shared s) + 1\<rparr>"
      using r by simp_all
    with Reuse(1) q inv w show ?thesis by (simp add: pool_inv_def pool_inv_defs)
  next
    case Reserve
    then have "r = Reserve" "st = shared s\<lparr>idle := [], in_use := in_use (shared s) + 1\<rparr>"
      using r by simp_all
    with q inv w show ?thesis by (simp add: pool_inv_def pool_inv_defs)
  next
    case AtCap
    then have "r = AtCap" "st = shared s\<lparr>idle := []\<rparr>"
      using r by simp_all
    with AtCap(1) q inv w show ?thesis by (simp add: pool_inv_def pool_inv_defs) 
  qed
qed

lemma try_acquire_in_use:
  "try_acquire now cfg st = (r, st') \<Longrightarrow> r = AtCap \<or> in_use st' = Suc (in_use st)"
  by (cases st now cfg rule: try_acquire_cases) auto

text \<open>A guard goes, with its connection or without: one lemma for \<open>Drop\<close> and for \<open>discard\<close>.\<close>

lemma drop_guard_Some:
  assumes "drop_guard now cfg g st = Some st'"
  shows "in_use st = Suc (in_use st')"
    and "map fst (idle st') = map fst (idle st) \<or>
      (\<exists>c. conn g = Some c \<and> map fst (idle st') = map fst (idle st) @ [c])"
  using assms by (auto simp: drop_guard_def bind_eq_Some_conv split: option.splits if_splits)

lemma give_back_inv:
  assumes inv: "pool_inv cfg s" and g: "guards s = a @ (i, c) # b" "conn g = None \<or> conn g = Some c"
    and st: "drop_guard (clock s) cfg g (shared s) = Some st"
    and n: "notify_one (parked s) (woken s) p w"
  shows "pool_inv cfg (s\<lparr>shared := st, guards := a @ b, parked := p, woken := w\<rparr>)"
proof -
  note use = drop_guard_Some(1) [OF st] and conns = drop_guard_Some(2) [OF st]
  have "queue_ok cfg (clock s) st" using drop_guard_queue_ok st inv by (auto simp: pool_inv_def)
  moreover have "in_use st = length (connecting s) + length (a @ b)"
    using inv g use by (simp add: pool_inv_def counted_def)
  moreover have "distinct (map fst (idle st) @ map snd (a @ b))"
  proof -
    have "distinct (map fst (idle (shared s)) @ map snd a @ c # map snd b)"
      using g(1) inv by (simp add: pool_inv_def sockets_def)
    with conns g(2) show ?thesis by (elim disjE exE conjE) (auto simp del: set_map)
  qed
  moreover have "distinct (connecting s @ p @ w @ map fst (a @ b))"
    unfolding notify_one_distinct [OF n] using inv g by (auto simp: pool_inv_def calls_def)
  moreover have "p = [] \<or> max_total cfg \<le> in_use st + length w"
    using notify_one_props(2) [OF n] inv use
    by (auto simp: pool_inv_def no_lost_wakeup_def)
  ultimately show ?thesis by (simp add: pool_inv_def pool_inv_defs)
qed

lemma pool_inv_step: "pool_step cfg s t \<Longrightarrow> pool_inv cfg s \<Longrightarrow> pool_inv cfg t"
proof (induction rule: pool_step.induct)
  case (call i s r st)
  then show ?case using try_acquire_in_use [OF call(2)]
    by (intro enter_inv) (auto simp: pool_inv_def no_lost_wakeup_def)
next
  case (resume s a i b r st)
  let ?s = "s\<lparr>woken := a @ b\<rparr>"
  have "pool_inv cfg (enter i r (?s\<lparr>shared := st\<rparr>))"
    using resume try_acquire_in_use [OF resume(2)]
    by (intro enter_inv) (auto simp: pool_inv_def pool_inv_defs)
  then show ?case by simp
next
  case (connected s a i b c)
  then show ?case by (auto simp: pool_inv_def pool_inv_defs)
next
  case (refused s a i b st p w)
  have "distinct ((a @ b) @ p @ w @ map fst (guards s))"
    unfolding notify_one_distinct [OF refused(3)]
    using refused by (auto simp: pool_inv_def calls_def)
  moreover have "p = [] \<or> max_total cfg \<le> in_use st + length w"
    using notify_one_props(2) [OF refused(3)] refused
    by (auto simp: pool_inv_def no_lost_wakeup_def connect_failed_def)
  moreover have "queue_ok cfg (clock s) st"
    using connect_failed_queue_ok refused by (auto simp: pool_inv_def)
  ultimately show ?case using refused
    by (simp add: pool_inv_def pool_inv_defs connect_failed_def)
next
  case (released s a i c b st p w)
  show ?case by (rule give_back_inv [OF released(4,1) _ released(2,3)]) simp
next
  case (discarded s a i c b st p w)
  show ?case by (rule give_back_inv [OF discarded(4,1) _ discarded(2,3)]) (simp add: discard_def)
next
  case (spurious s a i b)
  then show ?case by (auto simp: pool_inv_def pool_inv_defs)
next
  case (later s d)
  then show ?case by (auto simp: pool_inv_def pool_inv_defs intro: queue_ok_later)
qed

interpretation pool_threads: invariant "pool_start cfg" "pool_step cfg" "\<lambda>_. pool_inv cfg" for cfg
  by standard (auto intro: pool_inv_start pool_inv_step)

lemma reachable_parts:
  assumes "reachable (pool_start cfg t0) (pool_step cfg) s"
  shows "counted s" "queue_ok cfg (clock s) (shared s)" "distinct (sockets s)" "distinct (calls s)"
    "no_lost_wakeup cfg s"
  using pool_threads.reachable_inv [OF assms] by (simp_all add: pool_inv_def)

section \<open>What callers can rely on\<close>

text \<open>
  A pool of one connection in which call 0 holds socket 7 and call 1 waits for it, and the
  same pool after call 0 has given the socket back.
\<close>

definition one_config :: pool_config where
  "one_config = \<lparr>max_idle = 1, max_total = 1, idle_timeout = 10\<rparr>"

definition waiting_pool :: "nat threads" where
  "waiting_pool = \<lparr>shared = \<lparr>idle = [], in_use = 1\<rparr>, clock = 5, connecting = [], parked = [1],
     woken = [], guards = [(0, 7)]\<rparr>"

definition idle_pool :: "nat threads" where
  "idle_pool = \<lparr>shared = \<lparr>idle = [(7, 5)], in_use = 0\<rparr>, clock = 5, connecting = [], parked = [],
     woken = [1], guards = []\<rparr>"

lemmas sample_simps = one_config_def pool_start_def pool_with_config_def calls_def sockets_def
  try_acquire_def drop_guard_def

lemma waiting_pool_reachable: "reachable (pool_start one_config 5) (pool_step one_config) waiting_pool"
proof -
  let ?R = "reachable (pool_start one_config 5) (pool_step one_config)"
  let ?s = "\<lambda>n cs ps gs. \<lparr>shared = \<lparr>idle = [] :: (nat \<times> nat) list, in_use = n\<rparr>, clock = 5,
    connecting = cs, parked = ps, woken = [], guards = gs\<rparr>"
  have "?R (pool_start one_config 5)" by (rule reachable_init)
  moreover have "pool_step one_config (pool_start one_config 5) (?s 1 [0] [] [])"
    using pool_step.call [of 0 "pool_start one_config 5" one_config] by (simp add: sample_simps)
  ultimately have "?R (?s 1 [0] [] [])" by (rule reachable_step)
  moreover have "pool_step one_config (?s 1 [0] [] []) (?s 1 [] [] [(0, 7)])"
    using pool_step.connected [of "?s 1 [0] [] []" "[]" 0 "[]" 7] by (simp add: sample_simps)
  ultimately have "?R (?s 1 [] [] [(0, 7)])" by (rule reachable_step)
  moreover have "pool_step one_config (?s 1 [] [] [(0, 7)]) waiting_pool"
    using pool_step.call [of 1 "?s 1 [] [] [(0, 7)]" one_config]
    by (simp add: sample_simps waiting_pool_def)
  ultimately show ?thesis by (rule reachable_step)
qed

lemma waiting_to_idle: "pool_step one_config waiting_pool idle_pool"
proof -
  have "pool_step one_config waiting_pool (waiting_pool\<lparr>shared := \<lparr>idle = [(7, 5)], in_use = 0\<rparr>,
      guards := [], parked := [], woken := [1]\<rparr>)"
    using pool_step.released [of waiting_pool "[]" 0 7 "[]" one_config
        "\<lparr>idle = [(7, 5)], in_use = 0\<rparr>" "[]" "[1]"] notify_one.somebody [of "[]" 1 "[]" "[]"]
    by (simp add: waiting_pool_def sample_simps leave_def)
  then show ?thesis by (simp add: waiting_pool_def idle_pool_def)
qed

lemma idle_pool_reachable: "reachable (pool_start one_config 5) (pool_step one_config) idle_pool"
  by (rule reachable_step [OF waiting_pool_reachable waiting_to_idle])

text \<open>
  C7: in every interleaving of the threads, the counter is the number of guards held plus
  the number of connects under way, it never passes the budget together with the idle
  connections, and the idle queue keeps its own bound. The counter never underflows: every
  guard that exists can be dropped or discarded and every connect under way can fail.
\<close>

theorem pool_budget:
  assumes "reachable (pool_start cfg t0) (pool_step cfg) s"
  shows "in_use (shared s) = length (connecting s) + length (guards s) \<and>
    in_use (shared s) + length (idle (shared s)) \<le> max_total cfg \<and>
    length (idle (shared s)) \<le> max_idle cfg \<and>
    (guards s \<noteq> [] \<longrightarrow> drop_guard now cfg g (shared s) \<noteq> None) \<and>
    (connecting s \<noteq> [] \<longrightarrow> connect_failed (shared s) \<noteq> None)"
  using reachable_parts [OF assms] leave_None [of "shared s"]
  by (auto simp: counted_def queue_ok_def connect_failed_def drop_guard_def leave_def)

theorem pool_budget_witness:
  "in_use (shared waiting_pool) = 0 + length (guards waiting_pool) \<and>
   drop_guard 9 one_config \<lparr>conn = Some 7\<rparr> (shared waiting_pool) \<noteq> None"
  using pool_budget [OF waiting_pool_reachable] by (simp add: waiting_pool_def)

text \<open>
  C12: a connection has one owner: no two guards hold the same one, and none that is held
  waits in the idle queue.
\<close>

theorem pool_exclusive:
  assumes "reachable (pool_start cfg t0) (pool_step cfg) s"
  shows "distinct (map snd (guards s)) \<and> distinct (map fst (idle (shared s))) \<and>
    set (map snd (guards s)) \<inter> set (map fst (idle (shared s))) = {}"
  using reachable_parts(3) [OF assms] by (auto simp: sockets_def)

theorem pool_exclusive_witness:
  "set (map snd (guards idle_pool)) \<inter> set (map fst (idle (shared idle_pool))) = {}"
  using pool_exclusive [OF idle_pool_reachable] by blast

text \<open>
  C13: a caller gets the longest-waiting idle connection that is younger than the timeout,
  everything older is closed, and nothing else leaves the queue; without one it opens a new
  connection, and it waits exactly when the whole budget is in use.
\<close>

theorem acquire_oldest_fresh:
  assumes "reachable (pool_start cfg t0) (pool_step cfg) s"
  shows "try_acquire (clock s) cfg (shared s) =
    (case filter (fresh_at cfg (clock s)) (idle (shared s)) of
       e # r \<Rightarrow> (Reuse (fst e), \<lparr>idle = r, in_use = in_use (shared s) + 1\<rparr>)
     | [] \<Rightarrow>
         if in_use (shared s) = max_total cfg then (AtCap, \<lparr>idle = [], in_use = in_use (shared s)\<rparr>)
         else (Reserve, \<lparr>idle = [], in_use = in_use (shared s) + 1\<rparr>))"
  using try_acquire_fresh [OF reachable_parts(2) [OF assms]] by (auto split: list.splits)

theorem acquire_oldest_fresh_witness:
  "try_acquire 5 one_config (shared idle_pool) = (Reuse 7, \<lparr>idle = [], in_use = 1\<rparr>)"
  using acquire_oldest_fresh [OF idle_pool_reachable] by (simp add: idle_pool_def one_config_def)

text \<open>
  C10: no wakeup is lost: while a caller is parked, the budget is covered by guards held,
  connects under way and callers already woken; so as soon as room appears, a woken caller
  is on its way, and its next pass does not wait again.
\<close>

theorem pool_wakeups:
  assumes "reachable (pool_start cfg t0) (pool_step cfg) s" and "parked s \<noteq> []"
  shows "max_total cfg \<le> length (connecting s) + length (guards s) + length (woken s) \<and>
    (in_use (shared s) < max_total cfg \<longrightarrow>
       woken s \<noteq> [] \<and> fst (try_acquire (clock s) cfg (shared s)) \<noteq> AtCap)"
  using reachable_parts [OF assms(1)] assms(2) try_acquire_AtCap [of cfg "clock s" "shared s"]
  by (auto simp: counted_def no_lost_wakeup_def)

theorem pool_wakeups_witness: "1 \<le> length (guards waiting_pool) + length (woken waiting_pool)"
  using pool_wakeups [OF waiting_pool_reachable] by (simp add: waiting_pool_def one_config_def)

end
