(* ===== verification/PoolRefine.thy ===== *)
theory PoolRefine
  imports PoolSteps
begin

text \<open>
  What a pool promises, without its mutex, its queue, its clock and its condition variable:
  a lending desk with a fixed number of places. The theory states that desk as a step
  relation of its own and shows that the threads of \<open>PoolSteps\<close>, in any interleaving, do
  nothing but steps of the desk.
\<close>

section \<open>The specification\<close>

text \<open>
  A caller waits, has a connection opened for it, or has one on loan; the desk keeps some of
  the connections that came back. A place is taken from the moment a connection is being
  opened until its loan ends.
\<close>

record 'c desk =
  waiting :: "nat set"
  being_opened :: "nat set"
  lent :: "(nat \<times> 'c) set"
  kept :: "'c set"

definition empty_desk :: "'c desk" where
  "empty_desk = \<lparr>waiting = {}, being_opened = {}, lent = {}, kept = {}\<rparr>"

definition places_taken :: "'c desk \<Rightarrow> nat" where
  "places_taken A = card (being_opened A) + card (lent A)"

definition served :: "'c desk \<Rightarrow> nat set" where
  "served A = being_opened A \<union> fst ` lent A"

inductive desk_step :: "nat \<Rightarrow> 'c desk \<Rightarrow> 'c desk \<Rightarrow> bool" for places where
  lend: "i \<notin> served A \<Longrightarrow> places_taken A < places \<Longrightarrow> c \<in> kept A \<Longrightarrow> K \<subseteq> kept A - {c} \<Longrightarrow>
    desk_step places A
      (A\<lparr>waiting := waiting A - {i}, lent := insert (i, c) (lent A), kept := K\<rparr>)"
| start_opening: "i \<notin> served A \<Longrightarrow> places_taken A < places \<Longrightarrow>
    desk_step places A
      (A\<lparr>waiting := waiting A - {i}, being_opened := insert i (being_opened A), kept := {}\<rparr>)"
| queue_up: "i \<notin> served A \<Longrightarrow> places_taken A = places \<Longrightarrow>
    desk_step places A (A\<lparr>waiting := insert i (waiting A), kept := {}\<rparr>)"
| opened: "i \<in> being_opened A \<Longrightarrow> c \<notin> snd ` lent A \<union> kept A \<Longrightarrow>
    desk_step places A (A\<lparr>being_opened := being_opened A - {i}, lent := insert (i, c) (lent A)\<rparr>)"
| not_opened: "i \<in> being_opened A \<Longrightarrow> desk_step places A (A\<lparr>being_opened := being_opened A - {i}\<rparr>)"
| give_back: "(i, c) \<in> lent A \<Longrightarrow> kept A \<subseteq> K \<Longrightarrow> K \<subseteq> insert c (kept A) \<Longrightarrow>
    desk_step places A (A\<lparr>lent := lent A - {(i, c)}, kept := K\<rparr>)"
| throw_away: "(i, c) \<in> lent A \<Longrightarrow> desk_step places A (A\<lparr>lent := lent A - {(i, c)}\<rparr>)"

text \<open>The desk of a pool and its threads.\<close>

definition desk_of :: "'c threads \<Rightarrow> 'c desk" where
  "desk_of s =
     \<lparr>waiting = set (parked s @ woken s), being_opened = set (connecting s), lent = set (guards s),
      kept = set (map fst (idle (shared s)))\<rparr>"

lemma desk_of_fields [simp]:
  "waiting (desk_of s) = set (parked s @ woken s)" "being_opened (desk_of s) = set (connecting s)"
  "lent (desk_of s) = set (guards s)" "kept (desk_of s) = set (map fst (idle (shared s)))"
  by (simp_all add: desk_of_def)

lemma desk_eqI:
  "waiting A = waiting B \<Longrightarrow> being_opened A = being_opened B \<Longrightarrow> lent A = lent B \<Longrightarrow> kept A = kept B \<Longrightarrow>
   A = (B :: 'c desk)"
  by simp

section \<open>The simulation\<close>

lemma places_taken_desk_of:
  assumes "pool_inv cfg s"
  shows "places_taken (desk_of s) = in_use (shared s)"
proof -
  have "distinct (connecting s)" "distinct (guards s)"
    using assms by (auto simp: pool_inv_def calls_def distinct_map)
  then show ?thesis using assms
    by (simp add: places_taken_def distinct_card pool_inv_def counted_def)
qed

lemma served_desk_of: "served (desk_of s) = set (connecting s) \<union> set (map fst (guards s))"
  by (simp add: served_def)

text \<open>A pass of the loop, from a state in which the caller is neither served nor queued.\<close>

lemma enter_desk:
  assumes inv: "queue_ok cfg (clock s) (shared s)" "distinct (sockets s)"
    and D: "waiting D - {i} = set (parked s @ woken s)" "being_opened D = set (connecting s)"
      "lent D = set (guards s)" "kept D = set (map fst (idle (shared s)))"
    and i: "i \<notin> served D" and places: "places_taken D = in_use (shared s)"
    and r: "try_acquire (clock s) cfg (shared s) = (r, st)"
  shows "desk_step (max_total cfg) D (desk_of (enter i r (s\<lparr>shared := st\<rparr>)))"
proof (cases "shared s" "clock s" cfg rule: try_acquire_cases)
  case (Reuse c ts rest old)
  let ?t = "D\<lparr>waiting := waiting D - {i}, lent := insert (i, c) (lent D), kept := set (map fst rest)\<rparr>"
  have "c \<notin> set (map fst rest)" using inv(2) Reuse(1) by (auto simp: sockets_def)
  moreover have "in_use (shared s) < max_total cfg" using inv(1) Reuse(1) by (simp add: queue_ok_def)
  ultimately have "desk_step (max_total cfg) D ?t"
    using Reuse(1) D(4) i places by (intro desk_step.lend) auto
  moreover have "desk_of (enter i r (s\<lparr>shared := st\<rparr>)) = ?t"
    using Reuse(2) r D by (intro desk_eqI) auto
  ultimately show ?thesis by simp
next
  case Reserve
  let ?t = "D\<lparr>waiting := waiting D - {i}, being_opened := insert i (being_opened D), kept := {}\<rparr>"
  have "desk_step (max_total cfg) D ?t"
    using Reserve(1) i places by (intro desk_step.start_opening) auto
  moreover have "desk_of (enter i r (s\<lparr>shared := st\<rparr>)) = ?t"
    using Reserve(2) r D by (intro desk_eqI) auto
  ultimately show ?thesis by simp
next
  case AtCap
  let ?t = "D\<lparr>waiting := insert i (waiting D), kept := {}\<rparr>"
  have "desk_step (max_total cfg) D ?t"
    using AtCap(1) inv(1) i places by (intro desk_step.queue_up) (auto simp: queue_ok_def)
  moreover have "desk_of (enter i r (s\<lparr>shared := st\<rparr>)) = ?t"
    using AtCap(2) r D by (intro desk_eqI) auto
  ultimately show ?thesis by simp
qed

lemma notify_one_set: "notify_one p w p' w' \<Longrightarrow> set (p' @ w') = set (p @ w)"
  using notify_one_props(1) mset_eq_setD by blast

lemma guard_gone:
  assumes "pool_inv cfg s" and g: "guards s = a @ (i, c) # b"
  shows "set (a @ b) = lent (desk_of s) - {(i, c)}"
proof -
  have "distinct (guards s)" using assms(1) by (auto simp: pool_inv_def calls_def distinct_map)
  then show ?thesis unfolding g desk_of_fields by auto
qed

lemma pool_step_desk:
  "pool_step cfg s t \<Longrightarrow> pool_inv cfg s \<Longrightarrow>
   desk_step (max_total cfg) (desk_of s) (desk_of t) \<or> desk_of t = desk_of s"
proof (induction rule: pool_step.induct)
  case (call i s r st)
  then show ?case
    by (intro disjI1 enter_desk)
      (auto simp: pool_inv_def calls_def served_desk_of places_taken_desk_of)
next
  case (resume s a i b r st)
  let ?s = "s\<lparr>woken := a @ b\<rparr>"
  have "desk_step (max_total cfg) (desk_of s) (desk_of (enter i r (?s\<lparr>shared := st\<rparr>)))"
  proof (rule enter_desk)
    show "try_acquire (clock ?s) cfg (shared ?s) = (r, st)" using resume by simp
    show "places_taken (desk_of s) = in_use (shared ?s)" using resume places_taken_desk_of by simp
  qed (use resume in \<open>auto simp: pool_inv_def pool_inv_defs served_desk_of\<close>)
  then show ?case by simp
next
  case (connected s a i b c)
  let ?t = "(desk_of s)\<lparr>being_opened := being_opened (desk_of s) - {i}, lent := insert (i, c) (lent (desk_of s))\<rparr>"
  have "desk_step (max_total cfg) (desk_of s) ?t"
    using connected by (intro desk_step.opened) (auto simp: sockets_def)
  moreover have "desk_of (s\<lparr>connecting := a @ b, guards := (i, c) # guards s\<rparr>) = ?t"
    using connected by (intro desk_eqI) (auto simp: pool_inv_def calls_def)
  ultimately show ?case by simp
next
  case (refused s a i b st p w)
  let ?t = "(desk_of s)\<lparr>being_opened := being_opened (desk_of s) - {i}\<rparr>"
  have "desk_step (max_total cfg) (desk_of s) ?t"
    using refused(1) by (intro desk_step.not_opened) simp
  moreover have "desk_of (s\<lparr>shared := st, connecting := a @ b, parked := p, woken := w\<rparr>) = ?t"
    using refused notify_one_set [OF refused(3)]
    by (intro desk_eqI) (auto simp: pool_inv_def calls_def connect_failed_def)
  ultimately show ?case by simp
next
  case (released s a i c b st p w)
  let ?t = "(desk_of s)\<lparr>lent := lent (desk_of s) - {(i, c)}, kept := set (map fst (idle st))\<rparr>"
  have "set (map fst (idle st)) \<subseteq> insert c (set (map fst (idle (shared s))))"
    and "set (map fst (idle (shared s))) \<subseteq> set (map fst (idle st))"
    using drop_guard_Some(2) [OF released(2)] by (auto simp del: set_map)
  then have "desk_step (max_total cfg) (desk_of s) ?t"
    using released(1) by (intro desk_step.give_back) auto
  moreover have "desk_of (s\<lparr>shared := st, guards := a @ b, parked := p, woken := w\<rparr>) = ?t"
    using notify_one_set [OF released(3)] guard_gone [OF released(4,1)] by (intro desk_eqI) auto
  ultimately show ?case by simp
next
  case (discarded s a i c b st p w)
  let ?t = "(desk_of s)\<lparr>lent := lent (desk_of s) - {(i, c)}\<rparr>"
  have "idle st = idle (shared s)"
    using discarded(2) by (auto simp: drop_guard_def discard_def bind_eq_Some_conv)
  then have "desk_of (s\<lparr>shared := st, guards := a @ b, parked := p, woken := w\<rparr>) = ?t"
    using notify_one_set [OF discarded(3)] guard_gone [OF discarded(4,1)] by (intro desk_eqI) auto
  moreover have "desk_step (max_total cfg) (desk_of s) ?t"
    using discarded(1) by (intro desk_step.throw_away) simp
  ultimately show ?case by simp
next
  case (spurious s a i b)
  then show ?case by (auto intro!: desk_eqI)
next
  case (later s d)
  then show ?case by (auto intro!: desk_eqI)
qed

interpretation pool_desk:
  simulation "pool_start cfg" "pool_step cfg" empty_desk "desk_step (max_total cfg)" desk_of for cfg
proof
  show "desk_of (pool_start cfg t) = empty_desk" for t
    by (simp add: desk_of_def pool_start_def pool_with_config_def empty_desk_def)
  show "desk_step (max_total cfg) (desk_of s) (desk_of t) \<or> desk_of t = desk_of s"
    if "reachable (pool_start cfg a) (pool_step cfg) s" "pool_step cfg s t" for a s t
    using pool_step_desk that pool_threads.reachable_inv by blast
qed

text \<open>
  C11: the pool refines the lending desk with \<open>max_total\<close> places: whatever the threads
  do in whatever order, each of their steps is a step of the desk or invisible there, so a
  pool only ever shows states that the desk can reach.
\<close>

theorem pool_refines_desk:
  assumes "reachable (pool_start cfg t0) (pool_step cfg) s" and "pool_step cfg s t"
  shows "reachable empty_desk (desk_step (max_total cfg)) (desk_of s) \<and>
    (desk_step (max_total cfg) (desk_of s) (desk_of t) \<or> desk_of t = desk_of s)"
  using pool_desk.reachable_view [OF assms(1)] pool_desk.sim_step [OF assms] by blast

theorem pool_refines_desk_witness:
  "desk_step 1 \<lparr>waiting = {1}, being_opened = {}, lent = {(0, 7)}, kept = {}\<rparr>
     \<lparr>waiting = {1 :: nat}, being_opened = {}, lent = {}, kept = {7 :: nat}\<rparr>"
  using pool_refines_desk [OF waiting_pool_reachable waiting_to_idle]
  by (simp add: desk_of_def waiting_pool_def idle_pool_def one_config_def)

end
