(* ===== verification/Connection.thy ===== *)
theory Connection
  imports NetError
begin

text \<open>
  A RESP3 connection (\<open>connection.rs\<close>): \<open>HELLO\<close>, sending a frame, receiving one out of the
  bytes the socket delivers, and a call. The frame type, its encoder and its streaming
  decoder are the crate \<open>skeg_resp3\<close>: of \<open>Frame\<close> the model has the variants the code builds
  or matches, and the functions are fields of the record \<open>net\<close>, with the operations of
  \<open>TcpStream\<close>; what a lemma needs of them is stated where it needs it (\<open>codec_law\<close>,
  \<open>delivers\<close>). A double is its 64 bits.

  An operation that may wait for ever on the peer returns an option: \<open>None\<close> says that it
  never returns. Otherwise it returns its result and the connection after it.
\<close>

section \<open>Frames, the codec and the socket\<close>

datatype frame =
    Array "frame list"
  | Map "(frame \<times> frame) list"
  | Error string
  | Bulk bytes
  | Simple string
  | Integer i64
  | Double u64
  | Null
  | OtherFrame nat

record ('d, 's) net =
  dec_new :: 'd
  dec_decode :: "'d \<Rightarrow> (string + frame option) \<times> 'd"
  dec_feed :: "bytes \<Rightarrow> 'd \<Rightarrow> 'd"
  encode_frame :: "frame \<Rightarrow> bytes"
  frame_debug :: "frame \<Rightarrow> string"
  tcp_connect :: "string \<Rightarrow> io_error + 's"
  set_read_timeout :: "nat \<Rightarrow> 's \<Rightarrow> io_error + 's"
  set_write_timeout :: "nat \<Rightarrow> 's \<Rightarrow> io_error + 's"
  set_nodelay :: "bool \<Rightarrow> 's \<Rightarrow> io_error + 's"
  write_all :: "bytes \<Rightarrow> 's \<Rightarrow> (io_error + unit) \<times> 's"
  tcp_read :: "nat \<Rightarrow> 's \<Rightarrow> (io_error + bytes) \<times> 's"

section \<open>Operations on a connection\<close>

record ('d, 's) connection =
  stream :: 's
  decoder :: 'd

type_synonym ('c, 'a) op = "'c \<Rightarrow> ((net_error + 'a) \<times> 'c) option"

text \<open>Sequencing: go on with the value and the state, or stop at the error.\<close>

definition op_ok :: "'a \<Rightarrow> ('c, 'a) op" where
  "op_ok x = (\<lambda>c. Some (Ok x, c))"

definition op_lift :: "net_error + 'a \<Rightarrow> ('c, 'a) op" where
  "op_lift r = (\<lambda>c. Some (r, c))"

definition op_bind :: "('c, 'a) op \<Rightarrow> ('a \<Rightarrow> ('c, 'b) op) \<Rightarrow> ('c, 'b) op" where
  "op_bind m k = (\<lambda>c. case m c of
     None \<Rightarrow> None
   | Some (Err e, c') \<Rightarrow> Some (Err e, c')
   | Some (Ok x, c') \<Rightarrow> k x c')"

definition bulk_str :: "string \<Rightarrow> frame" where
  "bulk_str s = Bulk (as_bytes s)"

text \<open>A vector is the list of the 32-bit patterns of its floats.\<close>

fun encode_vector :: "u32 list \<Rightarrow> bytes" where
  "encode_vector [] = []"
| "encode_vector (x # v) = u32_to_le x @ encode_vector v"

definition send :: "('d, 's) net \<Rightarrow> frame \<Rightarrow> (('d, 's) connection, unit) op" where
  "send L f c =
     (case write_all L (encode_frame L f) (stream c) of
        (Ok _, s) \<Rightarrow> Some (Ok (), c\<lparr>stream := s\<rparr>)
      | (Err e, s) \<Rightarrow> Some (Err (Io e), c\<lparr>stream := s\<rparr>))"

partial_function (option) recv ::
  "('d, 's) net \<Rightarrow> ('d, 's) connection \<Rightarrow> ((net_error + frame) \<times> ('d, 's) connection) option"
where
  "recv L c =
     (case dec_decode L (decoder c) of
        (Ok (Some f), d) \<Rightarrow> Some (Ok f, c\<lparr>decoder := d\<rparr>)
      | (Err e, d) \<Rightarrow> Some (Err (Protocol [Lit ''parse error: '', Disp e]), c\<lparr>decoder := d\<rparr>)
      | (Ok None, d) \<Rightarrow>
          (case tcp_read L 8192 (stream c) of
             (Err e, s) \<Rightarrow> Some (Err (Io e), c\<lparr>stream := s, decoder := d\<rparr>)
           | (Ok b, s) \<Rightarrow>
               (if b = []
                then Some (Err (Protocol [Lit ''connection closed mid-frame'']),
                       c\<lparr>stream := s, decoder := d\<rparr>)
                else recv L (c\<lparr>stream := s, decoder := dec_feed L b d\<rparr>))))"

definition hello ::
  "('d, 's) net \<Rightarrow> u8 \<Rightarrow> (string \<times> string) option \<Rightarrow> (('d, 's) connection, unit) op"
where
  "hello L version auth =
     (let args = [bulk_str ''HELLO'', bulk_str (show_nat (unat version))] @
        (case auth of
           Some (u, p) \<Rightarrow> [bulk_str ''AUTH'', bulk_str u, bulk_str p]
         | None \<Rightarrow> [])
      in op_bind (send L (Array args)) (\<lambda>_.
         op_bind (recv L) (\<lambda>f. op_lift (case f of
           Map _ \<Rightarrow> Ok ()
         | Array _ \<Rightarrow> Ok ()
         | Error e \<Rightarrow> Err (Auth [Disp e])
         | _ \<Rightarrow> Err (Protocol [Lit ''unexpected HELLO reply: '', Dbg (frame_debug L f)])))))"

text \<open>
  \<open>from_stream\<close> (its timeouts in seconds), and \<open>connect\<close>, which does the same on a new stream. On an error
  the connection is dropped.
\<close>

definition from_stream ::
  "('d, 's) net \<Rightarrow> 's \<Rightarrow> (string \<times> string) option \<Rightarrow> (net_error + ('d, 's) connection) option"
where
  "from_stream L s auth =
     (case
        res_bind (map_err Io (set_read_timeout L 5 s)) (\<lambda>s.
        res_bind (map_err Io (set_write_timeout L 5 s)) (\<lambda>s.
        map_err Io (set_nodelay L True s)))
      of
        Err e \<Rightarrow> Some (Err e)
      | Ok s \<Rightarrow>
          (case hello L 3 auth \<lparr>stream = s, decoder = dec_new L\<rparr> of
             None \<Rightarrow> None
           | Some (Err e, _) \<Rightarrow> Some (Err e)
           | Some (Ok _, c) \<Rightarrow> Some (Ok c)))"

definition connect ::
  "('d, 's) net \<Rightarrow> string \<Rightarrow> (string \<times> string) option \<Rightarrow> (net_error + ('d, 's) connection) option"
where
  "connect L endpoint auth =
     (case tcp_connect L endpoint of
        Err e \<Rightarrow> Some (Err (Io e))
      | Ok s \<Rightarrow> from_stream L s auth)"

definition call :: "('d, 's) net \<Rightarrow> string \<Rightarrow> bytes list \<Rightarrow> (('d, 's) connection, frame) op" where
  "call L cmd args =
     op_bind (send L (Array (bulk_str cmd # map Bulk args))) (\<lambda>_.
     op_bind (recv L) (\<lambda>f. op_lift (case f of
       Error e \<Rightarrow> Err (Remote [Disp e])
     | _ \<Rightarrow> Ok f)))"

section \<open>Lemmas\<close>

lemma op_simps [simp, res_simps]:
  "op_ok x c = Some (Ok x, c)"
  "op_lift r c = Some (r, c)"
  by (simp_all add: op_ok_def op_lift_def)

lemma op_bind_eq_Some:
  "op_bind m k c = Some (r, c'') \<longleftrightarrow>
     (\<exists>e. m c = Some (Err e, c'') \<and> r = Err e) \<or>
     (\<exists>x c'. m c = Some (Ok x, c') \<and> k x c' = Some (r, c''))"
  by (auto simp: op_bind_def split: option.splits sum.splits prod.splits)

lemma op_bind_step:
  "m c = Some (Ok x, c') \<Longrightarrow> op_bind m k c = k x c'"
  "m c = Some (Err e, c') \<Longrightarrow> op_bind m k c = Some (Err e, c')"
  "m c = None \<Longrightarrow> op_bind m k c = None"
  by (simp_all add: op_bind_def)

lemma op_bind_assoc: "op_bind (op_bind m f) g = op_bind m (\<lambda>x. op_bind (f x) g)"
proof
  fix c
  consider "m c = None" | e c' where "m c = Some (Err e, c')" | x c' where "m c = Some (Ok x, c')"
    by (metis not_None_eq sum.exhaust surj_pair)
  then show "op_bind (op_bind m f) g c = op_bind m (\<lambda>x. op_bind (f x) g) c"
    by cases (simp_all add: op_bind_def)
qed

lemma length_encode_vector [simp]: "length (encode_vector v) = 4 * length v"
  by (induction v) auto

lemma encode_vector_inj: "encode_vector v = encode_vector w \<longleftrightarrow> v = w"
proof
  assume "encode_vector v = encode_vector w"
  then show "v = w"
  proof (induction v arbitrary: w)
    case Nil
    then have "length (encode_vector w) = 0" by simp
    then show ?case by simp
  next
    case (Cons x v)
    then have "length (encode_vector w) = 4 * Suc (length v)" by (metis length_Cons length_encode_vector)
    then obtain y w' where "w = y # w'" by (cases w) auto
    with Cons.prems have "u32_to_le x = u32_to_le y \<and> encode_vector v = encode_vector w'" by simp
    with Cons.IH [of w'] \<open>w = y # w'\<close> show ?case by (simp add: u32_to_le_inj)
  qed
qed simp

end
