(* ===== verification/ConnectionProps.thy ===== *)
theory ConnectionProps
  imports Connection "HOL-Library.Sublist"
begin

text \<open>
  What a connection guarantees: a frame is received whatever the chunks its bytes arrive in,
  a call ends whenever the socket stops delivering, a call gives the reply to its request on
  a connection in step with the server, and how the handshake ends. One theorem shows how a
  connection that timed out falls out of step.
\<close>

section \<open>What the codec and the socket promise\<close>

text \<open>
  The streaming decoder of \<open>skeg_resp3\<close>, for the frames \<open>valid\<close> it can carry: it buffers
  \<open>pending\<close> bytes, returns a frame as soon as they begin with its encoding and drops that
  encoding, and asks for more while they are a proper prefix of one.
\<close>

definition codec_law :: "('d, 's) net \<Rightarrow> (frame \<Rightarrow> bool) \<Rightarrow> ('d \<Rightarrow> bytes) \<Rightarrow> bool" where
  "codec_law L valid pending \<longleftrightarrow>
     pending (dec_new L) = [] \<and>
     (\<forall>b d. pending (dec_feed L b d) = pending d @ b) \<and>
     (\<forall>f d r. valid f \<longrightarrow> pending d = encode_frame L f @ r \<longrightarrow>
        (\<exists>d'. dec_decode L d = (Ok (Some f), d') \<and> pending d' = r)) \<and>
     (\<forall>f d. valid f \<longrightarrow> strict_prefix (pending d) (encode_frame L f) \<longrightarrow>
        (\<exists>d'. dec_decode L d = (Ok None, d') \<and> pending d' = pending d))"

text \<open>Reads of a socket that return these chunks, one after the other.\<close>

inductive delivers :: "('d, 's) net \<Rightarrow> 's \<Rightarrow> bytes list \<Rightarrow> 's \<Rightarrow> bool" for L where
  no_more: "delivers L s [] s"
| chunk: "tcp_read L 8192 s = (Ok b, s1) \<Longrightarrow> b \<noteq> [] \<Longrightarrow> delivers L s1 bs s2 \<Longrightarrow>
    delivers L s (b # bs) s2"

inductive_cases delivers_chunkE [elim!]: "delivers L s (b # bs) s'"
inductive_simps delivers_none [simp]: "delivers L s [] s'"

text \<open>A socket that sooner or later reports its end or an error, a timeout included.\<close>

inductive stops :: "('d, 's) net \<Rightarrow> 's \<Rightarrow> bool" for L where
  at_error: "tcp_read L 8192 s = (Err e, s1) \<Longrightarrow> stops L s"
| at_end: "tcp_read L 8192 s = (Ok [], s1) \<Longrightarrow> stops L s"
| later_on: "tcp_read L 8192 s = (Ok b, s1) \<Longrightarrow> stops L s1 \<Longrightarrow> stops L s"

lemma codec_lawD:
  assumes "codec_law L valid pending"
  shows "pending (dec_new L) = []" and "pending (dec_feed L b d) = pending d @ b"
    and "valid f \<Longrightarrow> pending d = encode_frame L f @ r \<Longrightarrow>
      \<exists>d'. dec_decode L d = (Ok (Some f), d') \<and> pending d' = r"
    and "valid f \<Longrightarrow> strict_prefix (pending d) (encode_frame L f) \<Longrightarrow>
      \<exists>d'. dec_decode L d = (Ok None, d') \<and> pending d' = pending d"
  using assms by (simp_all add: codec_law_def)

section \<open>Receiving\<close>

lemma recv_ready: "dec_decode L (decoder c) = (Ok (Some f), d) \<Longrightarrow> recv L c = Some (Ok f, c\<lparr>decoder := d\<rparr>)"
  by (subst recv.simps) simp

lemma recv_more:
  "dec_decode L (decoder c) = (Ok None, d) \<Longrightarrow> tcp_read L 8192 (stream c) = (Ok b, s) \<Longrightarrow> b \<noteq> [] \<Longrightarrow>
   recv L c = recv L (c\<lparr>stream := s, decoder := dec_feed L b d\<rparr>)"
  by (subst recv.simps) simp

lemma recv_fault:
  "dec_decode L (decoder c) = (Ok None, d) \<Longrightarrow> tcp_read L 8192 (stream c) = (Err e, s) \<Longrightarrow>
   recv L c = Some (Err (Io e), c\<lparr>stream := s, decoder := d\<rparr>)"
  by (subst recv.simps) simp

lemma recv_frame:
  assumes law: "codec_law L valid pending" and "valid f"
  shows "delivers L (stream c) chunks s \<Longrightarrow>
    pending (decoder c) @ concat chunks = encode_frame L f @ rest \<Longrightarrow>
    chunks = [] \<or> strict_prefix (pending (decoder c) @ concat (butlast chunks)) (encode_frame L f) \<Longrightarrow>
    \<exists>d. recv L c = Some (Ok f, \<lparr>stream = s, decoder = d\<rparr>) \<and> pending d = rest"
proof (induction chunks arbitrary: c)
  case Nil
  then have "pending (decoder c) = encode_frame L f @ rest" by simp
  from codec_lawD(3) [OF law \<open>valid f\<close> this] obtain d
    where "dec_decode L (decoder c) = (Ok (Some f), d)" "pending d = rest" by blast
  moreover have "c\<lparr>decoder := d\<rparr> = \<lparr>stream = s, decoder = d\<rparr>" using Nil by (cases c) simp
  ultimately show ?case using recv_ready [of L c f d] by simp
next
  case (Cons b bs)
  let ?p = "pending (decoder c)"
  from Cons.prems obtain s1 where r: "tcp_read L 8192 (stream c) = (Ok b, s1)" "b \<noteq> []"
    and bs: "delivers L s1 bs s" by auto
  have "strict_prefix ?p (encode_frame L f)"
    using Cons.prems(3) append_prefixD [of ?p] by (auto simp: strict_prefix_def)
  from codec_lawD(4) [OF law \<open>valid f\<close> this] obtain d where
    d: "dec_decode L (decoder c) = (Ok None, d)" "pending d = ?p" by blast
  let ?c = "c\<lparr>stream := s1, decoder := dec_feed L b d\<rparr>"
  have "pending (decoder ?c) = ?p @ b" using codec_lawD(2) [OF law] d(2) by simp
  moreover have "bs = [] \<or> strict_prefix (?p @ b @ concat (butlast bs)) (encode_frame L f)"
    using Cons.prems(3) by (cases bs) auto
  ultimately have "\<exists>d. recv L ?c = Some (Ok f, \<lparr>stream = s, decoder = d\<rparr>) \<and> pending d = rest"
    using Cons.IH [of ?c] bs Cons.prems(2) by simp
  then show ?case using recv_more [OF d(1) r] by simp
qed

text \<open>
  The frames a connection still has to give: the bytes its decoder holds and those its socket
  is going to deliver until it is in the state \<open>e\<close> are their encodings, one after the other.
\<close>

definition carries ::
  "('d, 's) net \<Rightarrow> ('d \<Rightarrow> bytes) \<Rightarrow> ('d, 's) connection \<Rightarrow> frame list \<Rightarrow> 's \<Rightarrow> bool"
where
  "carries L pending c fs e \<longleftrightarrow> (\<exists>chunks. delivers L (stream c) chunks e \<and>
     pending (decoder c) @ concat chunks = concat (map (encode_frame L) fs))"

lemma recv_first:
  assumes law: "codec_law L valid pending" "valid f"
  shows "delivers L s chunks e \<Longrightarrow> stream c = s \<Longrightarrow>
    pending (decoder c) @ concat chunks = encode_frame L f @ rest \<Longrightarrow>
    \<exists>c' chunks'. recv L c = Some (Ok f, c') \<and> delivers L (stream c') chunks' e \<and>
      pending (decoder c') @ concat chunks' = rest"
proof (induction arbitrary: c rule: delivers.induct)
  case (no_more s)
  then obtain d where "dec_decode L (decoder c) = (Ok (Some f), d)" "pending d = rest"
    using codec_lawD(3) [OF law(1), of f "decoder c" rest] law(2) by auto
  then show ?case using recv_ready [of L c f d] no_more(1) delivers.no_more
    by (intro exI [of _ "c\<lparr>decoder := d\<rparr>"] exI [of _ "[]"]) auto
next
  case (chunk s b s1 bs e)
  let ?p = "pending (decoder c)"
  show ?case
  proof (cases "strict_prefix ?p (encode_frame L f)")
    case True
    then obtain d where d: "dec_decode L (decoder c) = (Ok None, d)" "pending d = ?p"
      using codec_lawD(4) [OF law(1), of f "decoder c"] law(2) by blast
    let ?c = "c\<lparr>stream := s1, decoder := dec_feed L b d\<rparr>"
    have "pending (decoder ?c) @ concat bs = encode_frame L f @ rest"
      using codec_lawD(2) [OF law(1)] d(2) chunk.prems(2) by simp
    from chunk.IH [OF _ this] show ?thesis
      using recv_more [OF d(1) _ chunk(2), of s1] chunk(1) chunk.prems(1) by simp
  next
    case False
    have "prefix ?p (encode_frame L f @ rest)" "prefix (encode_frame L f) (encode_frame L f @ rest)"
      by (metis chunk.prems(2) prefixI) simp
    with False have "prefix (encode_frame L f) ?p"
      by (metis prefix_order.le_less prefix_same_cases)
    then obtain r where r: "?p = encode_frame L f @ r" by (auto elim: prefixE)
    then obtain d where "dec_decode L (decoder c) = (Ok (Some f), d)" "pending d = r"
      using codec_lawD(3) [OF law(1,2), of "decoder c" r] by blast
    moreover have "delivers L (stream c) (b # bs) e"
      using chunk(1-3) chunk.prems(1) by (auto intro: delivers.chunk)
    ultimately show ?thesis using recv_ready [of L c f d] chunk.prems(2) r
      by (intro exI [of _ "c\<lparr>decoder := d\<rparr>"] exI [of _ "b # bs"]) simp
  qed
qed

lemma recv_dequeues:
  assumes "codec_law L valid pending" and "valid f" and "carries L pending c (f # fs) e"
  shows "\<exists>c'. recv L c = Some (Ok f, c') \<and> carries L pending c' fs e"
  using assms(3) recv_first [OF assms(1,2)] unfolding carries_def by (auto simp: eq_commute)

lemma carries_none:
  "carries L pending c [] e \<longleftrightarrow> stream c = e \<and> pending (decoder c) = []"
proof -
  have "stream c = e" if "delivers L (stream c) chunks e" "concat chunks = []" for chunks
    using that by (cases chunks) auto
  then show ?thesis using delivers.no_more by (auto simp: carries_def intro: exI [of _ "[]"])
qed

text \<open>As many frames as a caller wants, one \<open>recv\<close> after the other.\<close>

fun recv_many :: "('d, 's) net \<Rightarrow> nat \<Rightarrow> (('d, 's) connection, frame list) op" where
  "recv_many L 0 = op_ok []"
| "recv_many L (Suc n) = op_bind (recv L) (\<lambda>f. op_bind (recv_many L n) (\<lambda>fs. op_ok (f # fs)))"

lemma recv_many_dequeues:
  assumes law: "codec_law L valid pending"
  shows "\<forall>f \<in> set fs. valid f \<Longrightarrow> carries L pending c (fs @ gs) e \<Longrightarrow>
    \<exists>c'. recv_many L (length fs) c = Some (Ok fs, c') \<and> carries L pending c' gs e"
proof (induction fs arbitrary: c)
  case (Cons f fs)
  then obtain c1 where c1: "recv L c = Some (Ok f, c1)" "carries L pending c1 (fs @ gs) e"
    using recv_dequeues [OF law, of f c "fs @ gs" e] by auto
  with Cons obtain c2 where "recv_many L (length fs) c1 = Some (Ok fs, c2)" "carries L pending c2 gs e"
    by fastforce
  with c1 show ?case by (auto simp: op_bind_step)
qed simp

text \<open>In step with the server: nothing is buffered, and nothing is on its way.\<close>

definition ready :: "('d \<Rightarrow> bytes) \<Rightarrow> ('s \<Rightarrow> bool) \<Rightarrow> ('d, 's) connection \<Rightarrow> bool" where
  "ready pending quiet c \<longleftrightarrow> quiet (stream c) \<and> pending (decoder c) = []"

lemma recv_stops: "stops L s \<Longrightarrow> stream c = s \<Longrightarrow> recv L c \<noteq> None"
proof (induction arbitrary: c rule: stops.induct)
  case (at_error s e s1)
  then show ?case by (subst recv.simps) (auto split: prod.splits sum.splits option.splits)
next
  case (at_end s s1)
  then show ?case by (subst recv.simps) (auto split: prod.splits sum.splits option.splits)
next
  case (later_on s b s1)
  from later_on.IH [of "c\<lparr>stream := s1, decoder := dec_feed L b d\<rparr>" for d] later_on show ?case
    by (subst recv.simps) (auto split: prod.splits sum.splits option.splits)
qed

section \<open>A small codec and socket\<close>

text \<open>
  A two-byte codec for the frames of a table, and a socket that records what is written and
  whose reads follow a script.
\<close>

record script =
  sent :: bytes
  script_reads :: "(io_error + bytes) list"

definition table_net :: "(u8 \<times> frame) list \<Rightarrow> script \<Rightarrow> (bytes, script) net" where
  "table_net table s0 =
     \<lparr>dec_new = [],
      dec_decode = (\<lambda>d. case d of
          a # k # r \<Rightarrow>
            (case map_of table k of Some f \<Rightarrow> (Ok (Some f), r) | None \<Rightarrow> (Err ''unknown'', r))
        | _ \<Rightarrow> (Ok None, d)),
      dec_feed = (\<lambda>b d. d @ b),
      encode_frame = (\<lambda>f. case find (\<lambda>e. snd e = f) table of Some e \<Rightarrow> [36, fst e] | None \<Rightarrow> [33]),
      frame_debug = (\<lambda>_. ''frame''),
      tcp_connect = (\<lambda>_. Ok s0),
      set_read_timeout = (\<lambda>_ s. Ok s),
      set_write_timeout = (\<lambda>_ s. Ok s),
      set_nodelay = (\<lambda>_ s. Ok s),
      write_all = (\<lambda>b s. (Ok (), s\<lparr>sent := sent s @ b\<rparr>)),
      tcp_read = (\<lambda>n s. case script_reads s of
          [] \<Rightarrow> (Ok [], s)
        | e # r \<Rightarrow> (e, s\<lparr>script_reads := r\<rparr>))\<rparr>"

lemma table_net_law:
  assumes "distinct (map fst table)"
  shows "codec_law (table_net table s0) (\<lambda>f. f \<in> snd ` set table) id"
proof -
  have enc: "\<exists>k. encode_frame (table_net table s0) f = [36, k] \<and> map_of table k = Some f"
    if "f \<in> snd ` set table" for f
  proof -
    from that have "find (\<lambda>e. snd e = f) table \<noteq> None" by (auto simp: find_None_iff)
    then obtain e where e: "find (\<lambda>e. snd e = f) table = Some e" by blast
    then have "e \<in> set table" "snd e = f" by (auto simp: find_Some_iff)
    with assms have "map_of table (fst e) = Some f" by (metis map_of_is_SomeI prod.collapse)
    with e show ?thesis by (simp add: table_net_def)
  qed
  have "length d < 2 \<Longrightarrow> dec_decode (table_net table s0) d = (Ok None, d)" for d
    by (auto simp: table_net_def split: list.splits)
  moreover have "map_of table k = Some f \<Longrightarrow>
      dec_decode (table_net table s0) (36 # k # r) = (Ok (Some f), r)" for k f r
    by (simp add: table_net_def)
  moreover have "strict_prefix d [a, b] \<Longrightarrow> length d < 2" for d and a b :: u8
    using prefix_length_less by fastforce
  moreover have "dec_new (table_net table s0) = []" and "\<And>b d. dec_feed (table_net table s0) b d = d @ b"
    by (simp_all add: table_net_def)
  ultimately show ?thesis unfolding codec_law_def
    using enc by (metis append_Cons append_Nil id_apply)
qed

section \<open>Calls\<close>

definition request :: "string \<Rightarrow> bytes list \<Rightarrow> frame" where
  "request cmd args = Array (bulk_str cmd # map Bulk args)"

definition reply_result :: "frame \<Rightarrow> net_error + frame" where
  "reply_result f = (case f of Error e \<Rightarrow> Err (Remote [Disp e]) | _ \<Rightarrow> Ok f)"

lemma call_unfold:
  "call L cmd args = op_bind (send L (request cmd args)) (\<lambda>_. op_bind (recv L) (\<lambda>f. op_lift (reply_result f)))"
  by (simp add: call_def request_def reply_result_def)

lemma delivers_whole:
  "delivers L s chunks s' \<Longrightarrow> concat chunks = b \<Longrightarrow>
   chunks = [] \<or> strict_prefix (concat (butlast chunks)) b"
proof (induction arbitrary: b rule: delivers.induct)
  case (chunk s b1 s1 bs s2)
  show ?case
  proof (cases "bs = []")
    case True
    with chunk show ?thesis by (auto simp: strict_prefix_def)
  next
    case False
    with chunk.IH [of "concat bs"] chunk.prems show ?thesis by (auto simp: strict_prefix_def)
  qed
qed simp

lemma recv_reply:
  assumes law: "codec_law L valid pending" "valid f" and "pending d = []"
    and del: "delivers L s chunks s'" "concat chunks = encode_frame L f"
  shows "\<exists>d'. recv L \<lparr>stream = s, decoder = d\<rparr> = Some (Ok f, \<lparr>stream = s', decoder = d'\<rparr>) \<and>
    pending d' = []"
  using recv_frame [OF law, of "\<lparr>stream = s, decoder = d\<rparr>" chunks s' "[]"] del assms(3)
    delivers_whole [OF del] by simp

lemma send_ok:
  "write_all L (encode_frame L f) (stream c) = (Ok (), s) \<Longrightarrow>
   send L f c = Some (Ok (), \<lparr>stream = s, decoder = decoder c\<rparr>)"
  by (cases c) (simp add: send_def)

lemma call_in_step:
  assumes law: "codec_law L valid pending" "valid f" and "pending (decoder c) = []"
    and "write_all L (encode_frame L (request cmd args)) (stream c) = (Ok (), s)"
    and "delivers L s chunks s'" "concat chunks = encode_frame L f"
  shows "\<exists>d. call L cmd args c = Some (reply_result f, \<lparr>stream = s', decoder = d\<rparr>) \<and> pending d = []"
proof -
  obtain d where "recv L \<lparr>stream = s, decoder = decoder c\<rparr> = Some (Ok f, \<lparr>stream = s', decoder = d\<rparr>)"
      "pending d = []"
    using recv_reply [OF law assms(3,5,6)] by blast
  then show ?thesis using send_ok [OF assms(4)] by (simp add: call_unfold op_bind_step)
qed

lemma call_times_out:
  assumes law: "codec_law L valid pending" "valid f" and "pending (decoder c) = []"
    and "encode_frame L f \<noteq> []"
    and "write_all L (encode_frame L (request cmd args)) (stream c) = (Ok (), s)"
    and "tcp_read L 8192 s = (Err e, s')"
  shows "\<exists>d. call L cmd args c = Some (Err (Io e), \<lparr>stream = s', decoder = d\<rparr>) \<and> pending d = []"
proof -
  have "strict_prefix (pending (decoder c)) (encode_frame L f)"
    using assms(3,4) by (auto simp: strict_prefix_def)
  then obtain d where "dec_decode L (decoder c) = (Ok None, d)" "pending d = []"
    using codec_lawD(4) [OF law] assms(3) by metis
  then show ?thesis using send_ok [OF assms(5)] assms(6)
    by (simp add: call_unfold op_bind_step recv_fault)
qed

section \<open>What callers can rely on\<close>

text \<open>The sample: two frames, and a server that answers in two chunks of one byte.\<close>

definition two_frames :: "(u8 \<times> frame) list" where
  "two_frames = [(1, Map []), (2, Simple ''OK'')]"

definition chunked :: "(io_error + bytes) list \<Rightarrow> script" where
  "chunked r = \<lparr>sent = [], script_reads = r\<rparr>"

definition sample_net :: "(bytes, script) net" where
  "sample_net = table_net two_frames (chunked [Ok [36], Ok [1]])"

lemma sample_net_law: "codec_law sample_net (\<lambda>f. f \<in> {Map [], Simple ''OK''}) id"
  using table_net_law [of two_frames "chunked [Ok [36], Ok [1]]"]
  by (simp add: sample_net_def two_frames_def)

lemmas sample_net_simps = sample_net_def table_net_def two_frames_def chunked_def

text \<open>
  C15: the byte stream refines a queue of frames. When the bytes on the way to a connection,
  cut into chunks in any way and with some of them already buffered, are the encodings of the
  frames \<open>fs\<close> and then \<open>gs\<close>, receiving as many frames as \<open>fs\<close> has returns exactly those, in
  order, and leaves \<open>gs\<close> to come; when there are no more, nothing is left in the buffer.
\<close>

theorem recv_refines_queue:
  assumes "codec_law L valid pending" and "\<forall>f \<in> set fs. valid f"
    and "carries L pending c (fs @ gs) e"
  shows "\<exists>c'. recv_many L (length fs) c = Some (Ok fs, c') \<and> carries L pending c' gs e \<and>
    (gs = [] \<longrightarrow> stream c' = e \<and> pending (decoder c') = [])"
  using recv_many_dequeues [OF assms] carries_none by metis

theorem recv_refines_queue_witness:
  "\<exists>c'. recv_many sample_net 2 \<lparr>stream = chunked [Ok [1, 36], Ok [2]], decoder = [36]\<rparr> =
     Some (Ok [Map [], Simple ''OK''], c') \<and> stream c' = chunked []"
proof -
  let ?c = "\<lparr>stream = chunked [Ok [1, 36], Ok [2]], decoder = [36] :: bytes\<rparr>"
  have "delivers sample_net (stream ?c) [[1, 36], [2]] (chunked [])"
    by (auto intro!: delivers.chunk simp: sample_net_simps)
  moreover have "id (decoder ?c) @ concat [[1, 36], [2]] =
      concat (map (encode_frame sample_net) [Map [], Simple ''OK''])"
    by (simp add: sample_net_simps)
  ultimately have "carries sample_net id ?c ([Map [], Simple ''OK''] @ []) (chunked [])"
    unfolding carries_def append_Nil2 by (intro exI conjI)
  from recv_refines_queue [OF sample_net_law _ this] show ?thesis
    by (simp add: numeral_2_eq_2 del: recv_many.simps) blast
qed

text \<open>
  C22: on a connection in step with the server, one whose decoder holds nothing, a call
  returns the reply to its own request, an error reply as a remote error, and leaves the
  connection in step.
\<close>

theorem call_gets_its_reply:
  assumes "codec_law L valid pending" and "valid f" and "pending (decoder c) = []"
    and "write_all L (encode_frame L (request cmd args)) (stream c) = (Ok (), s)"
    and "delivers L s chunks s'" and "concat chunks = encode_frame L f"
  shows "\<exists>d. pending d = [] \<and> call L cmd args c =
    Some (case f of Error e \<Rightarrow> Err (Remote [Disp e]) | _ \<Rightarrow> Ok f, \<lparr>stream = s', decoder = d\<rparr>)"
  using call_in_step [OF assms] unfolding reply_result_def by blast

theorem call_gets_its_reply_witness:
  "\<exists>d. id d = [] \<and> call sample_net ''SET'' [] \<lparr>stream = chunked [Ok [36], Ok [2]], decoder = []\<rparr> =
     Some (Ok (Simple ''OK''), \<lparr>stream = \<lparr>sent = [33], script_reads = []\<rparr>, decoder = d\<rparr>)"
proof -
  have "delivers sample_net \<lparr>sent = [33], script_reads = [Ok [36], Ok [2]]\<rparr> [[36], [2]]
      \<lparr>sent = [33], script_reads = []\<rparr>"
    by (auto intro!: delivers.chunk simp: sample_net_simps)
  from call_gets_its_reply [OF sample_net_law _ _ _ this, of "Simple ''OK''"
      "\<lparr>stream = chunked [Ok [36], Ok [2]], decoder = []\<rparr>" "''SET''" "[]"]
  show ?thesis by (simp add: sample_net_simps request_def)
qed

text \<open>
  C24: a call ends whenever the socket, after the request is written, sooner or later
  reports an error (such as its read timeout) or the end of the stream.
\<close>

theorem call_returns:
  assumes "stops L (snd (write_all L (encode_frame L (request cmd args)) (stream c)))"
  shows "\<exists>r c'. call L cmd args c = Some (r, c')"
proof (cases "write_all L (encode_frame L (request cmd args)) (stream c)")
  case (Pair w s)
  then show ?thesis
  proof (cases w)
    case (Inl e)
    with Pair show ?thesis by (simp add: call_unfold send_def op_bind_step)
  next
    case (Inr u)
    from recv_stops [of L s "\<lparr>stream = s, decoder = decoder c\<rparr>"] assms Pair
    obtain r c' where "recv L \<lparr>stream = s, decoder = decoder c\<rparr> = Some (r, c')" by auto
    then show ?thesis using Pair Inr send_ok [of L "request cmd args" c s]
      by (cases r) (simp_all add: call_unfold op_bind_step)
  qed
qed

theorem call_returns_witness:
  "\<exists>r c'. call sample_net ''GET'' [] \<lparr>stream = chunked [Ok [36]], decoder = []\<rparr> = Some (r, c')"
proof (rule call_returns)
  have "stops sample_net \<lparr>sent = [33], script_reads = []\<rparr>"
    by (rule stops.at_end) (simp add: sample_net_simps)
  then have "stops sample_net \<lparr>sent = [33], script_reads = [Ok [36]]\<rparr>"
    by (rule stops.later_on [rotated]) (simp add: sample_net_simps)
  then show "stops sample_net (snd (write_all sample_net (encode_frame sample_net (request ''GET'' []))
      (stream \<lparr>stream = chunked [Ok [36]], decoder = [] :: bytes\<rparr>)))"
    by (simp add: sample_net_simps request_def)
qed

text \<open>
  C23: a connection that is used again after a call on it timed out is out of step: when the
  late reply to the first request arrives, the second call returns it as its own.
\<close>

theorem late_reply_answers_next_call:
  assumes "codec_law L valid pending" and "valid f1" and "encode_frame L f1 \<noteq> []"
    and "pending (decoder c) = []"
    and "write_all L (encode_frame L (request cmd1 args1)) (stream c) = (Ok (), s1)"
    and "tcp_read L 8192 s1 = (Err timeout, s2)"
    and "write_all L (encode_frame L (request cmd2 args2)) s2 = (Ok (), s3)"
    and "delivers L s3 chunks s4" and "concat chunks = encode_frame L f1"
  shows "\<exists>c1 c2. call L cmd1 args1 c = Some (Err (Io timeout), c1) \<and>
    call L cmd2 args2 c1 = Some (reply_result f1, c2)"
proof -
  obtain d where "call L cmd1 args1 c = Some (Err (Io timeout), \<lparr>stream = s2, decoder = d\<rparr>)"
      "pending d = []"
    using call_times_out [OF assms(1,2,4,3,5,6)] by blast
  moreover from this(2) have "\<exists>d'. call L cmd2 args2 \<lparr>stream = s2, decoder = d\<rparr> =
      Some (reply_result f1, \<lparr>stream = s4, decoder = d'\<rparr>) \<and> pending d' = []"
    using assms(7) by (intro call_in_step [OF assms(1,2) _ _ assms(8,9)]) auto
  ultimately show ?thesis by blast
qed

theorem late_reply_answers_next_call_witness:
  "\<exists>c1 c2.
     call sample_net ''FIRST'' []
       \<lparr>stream = chunked [Err (io_other ''timed out''), Ok [36, 2]], decoder = []\<rparr> =
       Some (Err (Io (io_other ''timed out'')), c1) \<and>
     call sample_net ''SECOND'' [] c1 = Some (Ok (Simple ''OK''), c2)"
proof -
  have "delivers sample_net \<lparr>sent = [33, 33], script_reads = [Ok [36, 2]]\<rparr> [[36, 2]]
      \<lparr>sent = [33, 33], script_reads = []\<rparr>"
    by (auto intro!: delivers.chunk simp: sample_net_simps)
  from late_reply_answers_next_call [OF sample_net_law _ _ _ _ _ _ this, of "Simple ''OK''"
      "\<lparr>stream = chunked [Err (io_other ''timed out''), Ok [36, 2]], decoder = []\<rparr>" "''FIRST''" "[]"
      "\<lparr>sent = [33], script_reads = [Err (io_other ''timed out''), Ok [36, 2]]\<rparr>"
      "io_other ''timed out''" "\<lparr>sent = [33], script_reads = [Ok [36, 2]]\<rparr>" "''SECOND''" "[]"]
  show ?thesis by (simp add: sample_net_simps request_def reply_result_def)
qed

text \<open>The greeting \<open>hello\<close> sends.\<close>

definition hello_request :: "(string \<times> string) option \<Rightarrow> frame" where
  "hello_request auth = (case auth of
     None \<Rightarrow> request ''HELLO'' [as_bytes ''3'']
   | Some (u, p) \<Rightarrow> request ''HELLO'' [as_bytes ''3'', as_bytes ''AUTH'', as_bytes u, as_bytes p])"

lemma show_nat_3: "show_nat 3 = ''3''"
  by (simp add: show_nat.simps digit_char_def char_of_def bit_0)

lemma handshake:
  assumes "codec_law L valid pending" and "valid f"
    and "tcp_connect L endpoint = Ok s0"
    and "set_read_timeout L 5 s0 = Ok s1" and "set_write_timeout L 5 s1 = Ok s2"
    and "set_nodelay L True s2 = Ok s3"
    and "write_all L (encode_frame L (hello_request auth)) s3 = (Ok (), s4)"
    and "delivers L s4 chunks s5" and "concat chunks = encode_frame L f"
  shows "\<exists>d. pending d = [] \<and> connect L endpoint auth = Some (case f of
      Map _ \<Rightarrow> Ok \<lparr>stream = s5, decoder = d\<rparr>
    | Array _ \<Rightarrow> Ok \<lparr>stream = s5, decoder = d\<rparr>
    | Error e \<Rightarrow> Err (Auth [Disp e])
    | _ \<Rightarrow> Err (Protocol [Lit ''unexpected HELLO reply: '', Dbg (frame_debug L f)]))"
proof -
  obtain d where d: "recv L \<lparr>stream = s4, decoder = dec_new L\<rparr> = Some (Ok f, \<lparr>stream = s5, decoder = d\<rparr>)"
      "pending d = []"
    using recv_reply [OF assms(1,2) codec_lawD(1) [OF assms(1)] assms(8,9)] by blast
  have "Array ([bulk_str ''HELLO'', bulk_str (show_nat (unat (3 :: u8)))] @
      (case auth of Some (u, p) \<Rightarrow> [bulk_str ''AUTH'', bulk_str u, bulk_str p] | None \<Rightarrow> [])) =
      hello_request auth"
    by (auto simp: hello_request_def request_def bulk_str_def show_nat_3 split: option.splits)
  then have "hello L 3 auth \<lparr>stream = s3, decoder = dec_new L\<rparr> =
      (case f of Map _ \<Rightarrow> Some (Ok (), \<lparr>stream = s5, decoder = d\<rparr>)
       | Array _ \<Rightarrow> Some (Ok (), \<lparr>stream = s5, decoder = d\<rparr>)
       | Error e \<Rightarrow> Some (Err (Auth [Disp e]), \<lparr>stream = s5, decoder = d\<rparr>)
       | _ \<Rightarrow> Some (Err (Protocol [Lit ''unexpected HELLO reply: '', Dbg (frame_debug L f)]),
           \<lparr>stream = s5, decoder = d\<rparr>))"
    using send_ok [of L "hello_request auth" "\<lparr>stream = s3, decoder = dec_new L\<rparr>" s4] assms(7) d(1)
    by (simp add: hello_def Let_def op_bind_step split: frame.split)
  with d(2) assms(3-6) show ?thesis
    by (intro exI [of _ d]) (simp add: connect_def from_stream_def split: frame.split)
qed

text \<open>
  C25: connecting to a server that answers the greeting, whatever the chunks: the request is
  \<open>HELLO 3\<close>, with \<open>AUTH\<close> and the credentials when there are any; a map or an array opens
  the connection, in step with the server; an error is an authentication error; any other
  reply is a protocol error.
\<close>

theorem connect_handshake:
  assumes "codec_law L valid pending" and "valid f"
    and "tcp_connect L endpoint = Ok s0"
    and "set_read_timeout L 5 s0 = Ok s1" and "set_write_timeout L 5 s1 = Ok s2"
    and "set_nodelay L True s2 = Ok s3"
    and "write_all L (encode_frame L (hello_request auth)) s3 = (Ok (), s4)"
    and "delivers L s4 chunks s5" and "concat chunks = encode_frame L f"
  shows "\<exists>d. pending d = [] \<and> connect L endpoint auth = Some (case f of
      Map _ \<Rightarrow> Ok \<lparr>stream = s5, decoder = d\<rparr>
    | Array _ \<Rightarrow> Ok \<lparr>stream = s5, decoder = d\<rparr>
    | Error e \<Rightarrow> Err (Auth [Disp e])
    | _ \<Rightarrow> Err (Protocol [Lit ''unexpected HELLO reply: '', Dbg (frame_debug L f)]))"
  by (rule handshake [OF assms])

theorem connect_handshake_witness:
  "\<exists>d. id d = [] \<and> connect sample_net ''host:1'' (Some (''u'', ''p'')) =
     Some (Ok \<lparr>stream = \<lparr>sent = [33], script_reads = []\<rparr>, decoder = d\<rparr>)"
proof -
  have "delivers sample_net \<lparr>sent = [33], script_reads = [Ok [36], Ok [1]]\<rparr> [[36], [1]]
      \<lparr>sent = [33], script_reads = []\<rparr>"
    by (auto intro!: delivers.chunk simp: sample_net_simps)
  from connect_handshake [OF sample_net_law _ _ _ _ _ _ this, of "Map []" "''host:1''"
      "chunked [Ok [36], Ok [1]]" "chunked [Ok [36], Ok [1]]" "chunked [Ok [36], Ok [1]]"
      "chunked [Ok [36], Ok [1]]" "Some (''u'', ''p'')"]
  show ?thesis by (simp add: sample_net_simps hello_request_def request_def)
qed

end
