(* ===== verification/F32.thy ===== *)
theory F32
  imports RustNum
begin

unbundle bit_operations_syntax

text \<open>
  The two conversions to \<open>f32\<close> the tenant uses, on bit patterns: the cast of an \<open>f64\<close>, and
  \<open>str::parse\<close>. Both round the exact value to the nearest \<open>f32\<close>, ties to even, so they share
  one rounding of a ratio of naturals. A cast NaN keeps its sign and the top bits of its
  payload and becomes quiet, as the hardware does it.
\<close>

section \<open>Rounding a ratio\<close>

fun log2 :: "nat \<Rightarrow> nat" where
  "log2 n = (if n \<le> 1 then 0 else Suc (log2 (n div 2)))"

declare log2.simps [simp del]

text \<open>The exponent of the ratio: \<open>2 ^ e \<le> n / d < 2 ^ (e + 1)\<close>.\<close>

definition ratio_exp :: "nat \<Rightarrow> nat \<Rightarrow> int" where
  "ratio_exp n d =
     (if d \<le> n then int (log2 (n div d))
      else (let k = log2 (d div n) in if d \<le> n * 2 ^ k then - int k else - int k - 1))"

definition round_half_even :: "nat \<Rightarrow> nat \<Rightarrow> nat" where
  "round_half_even a b =
     (let q = a div b; r = a mod b in if b < 2 * r \<or> (2 * r = b \<and> odd q) then q + 1 else q)"

text \<open>The bits of the \<open>f32\<close> nearest to \<open>n / d\<close>, without the sign; too large a ratio is infinite.\<close>

definition F32_INF :: nat where "F32_INF = 0x7F800000"

definition round_f32 :: "nat \<Rightarrow> nat \<Rightarrow> nat" where
  "round_f32 n d =
     (if n = 0 then 0
      else
        (let e = max (ratio_exp n d) (- 126);
             m = (if e \<le> 23 then round_half_even (n * 2 ^ nat (23 - e)) d
                  else round_half_even n (d * 2 ^ nat (e - 23)))
         in min F32_INF (nat (e + 126) * 2 ^ 23 + m)))"

definition with_sign :: "bool \<Rightarrow> nat \<Rightarrow> u32" where
  "with_sign neg bits = of_nat (if neg then bits + 2 ^ 31 else bits)"

section \<open>The cast\<close>

definition f64_to_f32 :: "u64 \<Rightarrow> u32" where
  "f64_to_f32 w =
     (let b = unat w; neg = (2 ^ 63 \<le> b); ex = b div 2 ^ 52 mod 2 ^ 11; man = b mod 2 ^ 52 in
      with_sign neg
        (if ex = 2047 then
           (if man = 0 then F32_INF else 0x7F800000 + (if man < 2 ^ 51 then 2 ^ 22 + man div 2 ^ 29 else man div 2 ^ 29))
         else if ex = 0 then round_f32 man (2 ^ 1074)
         else if ex \<le> 1075 then round_f32 (2 ^ 52 + man) (2 ^ (1075 - ex))
         else round_f32 ((2 ^ 52 + man) * 2 ^ (ex - 1075)) 1))"

section \<open>The parser\<close>

text \<open>The decimal digits a text starts with, and the rest.\<close>

fun span_digits :: "string \<Rightarrow> nat list \<times> string" where
  "span_digits [] = ([], [])"
| "span_digits (c # s) =
     (case char_digit c of
        None \<Rightarrow> ([], c # s)
      | Some d \<Rightarrow> (let (ds, r) = span_digits s in (d # ds, r)))"

definition digits_value :: "nat list \<Rightarrow> nat" where
  "digits_value ds = foldl (\<lambda>a d. 10 * a + d) 0 ds"

text \<open>The exponent's digits stop counting beyond \<open>0x10000\<close>, as in \<open>core::num::dec2flt\<close>.\<close>

definition exp_value :: "nat list \<Rightarrow> nat" where
  "exp_value ds = foldl (\<lambda>a d. if a < 0x10000 then 10 * a + d else a) 0 ds"

definition parse_exponent :: "string \<Rightarrow> int option" where
  "parse_exponent s =
     (case s of
        [] \<Rightarrow> Some 0
      | c # r \<Rightarrow>
          (if c \<noteq> CHR ''e'' \<and> c \<noteq> CHR ''E'' then None
           else
             (let neg = (r \<noteq> [] \<and> hd r = CHR ''-'');
                  r = (if r \<noteq> [] \<and> (hd r = CHR ''-'' \<or> hd r = CHR ''+'') then tl r else r);
                  (ds, r) = span_digits r
              in if ds = [] \<or> r \<noteq> [] then None
                 else Some (if neg then - int (exp_value ds) else int (exp_value ds)))))"

text \<open>The digits, as one number, and the power of ten they are scaled by.\<close>

definition parse_decimal :: "string \<Rightarrow> (nat \<times> int) option" where
  "parse_decimal s =
     (let (ip, r) = span_digits s;
          (fp, r) = (if r \<noteq> [] \<and> hd r = CHR ''.'' then span_digits (tl r) else ([], r))
      in if ip @ fp = [] then None
         else map_option (\<lambda>e. (digits_value (ip @ fp), e - int (length fp))) (parse_exponent r))"

definition ascii_lower :: "char \<Rightarrow> char" where
  "ascii_lower c = (let n = (of_char c :: nat) in if 65 \<le> n \<and> n \<le> 90 then char_of (n + 32) else c)"

definition parse_special :: "string \<Rightarrow> nat option" where
  "parse_special s =
     (let l = map ascii_lower s in
      if l = ''nan'' then Some 0x7FC00000
      else if l = ''inf'' \<or> l = ''infinity'' then Some F32_INF
      else None)"

definition parse_f32 :: "string \<Rightarrow> u32 option" where
  "parse_f32 s =
     (let neg = (s \<noteq> [] \<and> hd s = CHR ''-'');
          t = (if s \<noteq> [] \<and> (hd s = CHR ''-'' \<or> hd s = CHR ''+'') then tl s else s)
      in map_option (with_sign neg)
           (case parse_decimal t of
              Some (m, e) \<Rightarrow>
                Some (if 0 \<le> e then round_f32 (m * 10 ^ nat e) 1 else round_f32 m (10 ^ nat (- e)))
            | None \<Rightarrow> parse_special t))"

end
