(* ===== verification/Tenant.thy ===== *)
theory Tenant
  imports Connection Pool Envelope F32
begin

text \<open>
  A remote tenant (\<open>tenant.rs\<close>): where it gets a connection from, the reading of the index
  list, and the filtered query. The types of the crate \<open>skeg_rigging\<close> (\<open>Hit\<close>,
  \<open>RecordMeta\<close>, \<open>QueryError\<close>) appear with the fields the code fills in, its \<open>Filter\<close> is a
  predicate given to the query; a float is its bit pattern. Every operation that talks to
  the server returns an option, as in the theory \<open>Connection\<close>.
\<close>

section \<open>The source of connections\<close>

type_synonym ('d, 's) pool = "('d, 's) connection resp3_pool"

text \<open>
  \<open>acquire\<close> of one thread that has the pool to itself at time \<open>now\<close>: at the cap it waits for
  ever (\<open>None\<close>). What happens among several threads is the theory \<open>PoolSteps\<close>.
\<close>

definition acquire ::
  "('d, 's) net \<Rightarrow> nat \<Rightarrow> ('d, 's) pool \<Rightarrow>
     ((net_error + ('d, 's) connection pooled_connection) \<times> ('d, 's) pool) option"
where
  "acquire L now p =
     (case try_acquire now (config p) (pstate p) of
        (Reuse c, st) \<Rightarrow> Some (Ok \<lparr>conn = Some c\<rparr>, p\<lparr>pstate := st\<rparr>)
      | (Reserve, st) \<Rightarrow>
          (case connect L (endpoint p) (auth p) of
             None \<Rightarrow> None
           | Some (Ok c) \<Rightarrow> Some (Ok \<lparr>conn = Some c\<rparr>, p\<lparr>pstate := st\<rparr>)
           | Some (Err e) \<Rightarrow>
               map_option (\<lambda>st. (Err e, p\<lparr>pstate := st\<rparr>)) (connect_failed st))
      | (AtCap, _) \<Rightarrow> None)"

text \<open>
  Borrow a connection at the first of the two times, run \<open>f\<close> on it, discard it after an
  error, and let the guard go at the second time. \<open>conn_mut\<close> panics on a discarded guard.
\<close>

definition conn_mut :: "'c pooled_connection \<Rightarrow> 'c option" where
  "conn_mut g = conn g"

definition after_use :: "net_error + 'r \<Rightarrow> 'c pooled_connection \<Rightarrow> 'c pooled_connection" where
  "after_use result g = (if is_err result then discard g else g)"

definition with_pooled ::
  "('d, 's) net \<Rightarrow> nat \<times> nat \<Rightarrow> (('d, 's) connection, 'r) op \<Rightarrow> (('d, 's) pool, 'r) op"
where
  "with_pooled L tm f p =
     op_bind (acquire L (fst tm)) (\<lambda>g p.
       Option.bind (conn_mut g) (\<lambda>c.
       Option.bind (f c) (\<lambda>(r, c').
       map_option (\<lambda>st. (r, p\<lparr>pstate := st\<rparr>))
         (drop_guard (snd tm) (config p) (after_use r (g\<lparr>conn := Some c'\<rparr>)) (pstate p))))) p"

datatype ('d, 's) conn_source =
    Owned "('d, 's) connection"
  | Pooled "('d, 's) pool"

fun with_conn ::
  "('d, 's) net \<Rightarrow> nat \<times> nat \<Rightarrow> (('d, 's) connection, 'r) op \<Rightarrow> (('d, 's) conn_source, 'r) op"
where
  "with_conn L tm f (Owned c) = map_option (\<lambda>(r, c). (r, Owned c)) (f c)"
| "with_conn L tm f (Pooled p) = map_option (\<lambda>(r, p). (r, Pooled p)) (with_pooled L tm f p)"

section \<open>The index list\<close>

text \<open>One \<open>key=value\<close> word of a row, the row, and the search for the row of an index.\<close>

fun kv_step ::
  "string option \<times> u32 option \<times> u64 option \<Rightarrow> string \<Rightarrow> string option \<times> u32 option \<times> u64 option"
where
  "kv_step (name, dim, count) kv =
     (case split_once CHR ''='' kv of
        None \<Rightarrow> (name, dim, count)
      | Some (k, v) \<Rightarrow>
          (if k = ''name'' then (Some v, dim, count)
           else if k = ''dim'' then (name, parse_u32 v, count)
           else if k = ''n_vectors'' then (name, dim, parse_u64 v)
           else (name, dim, count)))"

definition row_fields :: "string \<Rightarrow> string option \<times> u32 option \<times> u64 option" where
  "row_fields line = foldl kv_step (None, None, None) (split_whitespace line)"

definition row_line :: "frame \<Rightarrow> string option" where
  "row_line row = (case row of Bulk b \<Rightarrow> Some (string_of (utf8_lossy b)) | Simple s \<Rightarrow> Some s | _ \<Rightarrow> None)"

definition quote :: string where "quote = [CHR 0x27]"

fun find_index :: "string \<Rightarrow> frame list \<Rightarrow> net_error + u32 \<times> u64" where
  "find_index index_name [] =
     Err (Protocol [Lit (''index '' @ quote), Disp index_name, Lit (quote @ '' not found on remote'')])"
| "find_index index_name (row # rows) =
     (case row_line row of
        None \<Rightarrow> find_index index_name rows
      | Some line \<Rightarrow>
          (let (name, dim, count) = row_fields line in
           if name = Some index_name
           then res_bind (ok_or (Protocol [Lit ''VINDEX.LIST row missing dim='']) dim)
             (\<lambda>dim. Ok (dim, case count of Some n \<Rightarrow> n | None \<Rightarrow> 0))
           else find_index index_name rows))"

definition vindex_info :: "('d, 's) net \<Rightarrow> string \<Rightarrow> (('d, 's) connection, u32 \<times> u64) op" where
  "vindex_info L index_name =
     op_bind (call L ''SKEG.VINDEX.LIST'' []) (\<lambda>reply. op_lift (case reply of
       Array rows \<Rightarrow> find_index index_name rows
     | _ \<Rightarrow> Err (Protocol [Lit ''VINDEX.LIST: expected Array, got '', Dbg (frame_debug L reply)])))"

section \<open>The tenant\<close>

record ('d, 's) tenant =
  source :: "('d, 's) conn_source"
  tenant_id :: bytes
  embedding_dim :: u32
  record_count :: u64
  index_name :: string

definition DEFAULT_INDEX_NAME :: string where "DEFAULT_INDEX_NAME = ''hansa''"
definition OVERSAMPLE :: u32 where "OVERSAMPLE = 4"
definition MIN_CANDIDATES :: u32 where "MIN_CANDIDATES = 64"
definition DEFAULT_L_SEARCH :: u32 where "DEFAULT_L_SEARCH = 100"

definition from_connection ::
  "('d, 's) net \<Rightarrow> ('d, 's) connection \<Rightarrow> bytes \<Rightarrow> string \<Rightarrow> (net_error + ('d, 's) tenant) option"
where
  "from_connection L c tid index =
     map_option (\<lambda>(r, c). res_bind r (\<lambda>(dim, count).
         Ok \<lparr>source = Owned c, tenant_id = tid, embedding_dim = dim, record_count = count,
             index_name = index\<rparr>))
       (vindex_info L index c)"

definition connect_with_index ::
  "('d, 's) net \<Rightarrow> string \<Rightarrow> bytes \<Rightarrow> (string \<times> string) option \<Rightarrow> string \<Rightarrow>
     (net_error + ('d, 's) tenant) option"
where
  "connect_with_index L ep tid au index =
     Option.bind (connect L ep au) (\<lambda>r. case r of
       Err e \<Rightarrow> Some (Err e)
     | Ok c \<Rightarrow> map_option (\<lambda>(r, c). res_bind r (\<lambda>(dim, count).
         Ok \<lparr>source = Owned c, tenant_id = tid, embedding_dim = dim, record_count = count,
             index_name = index\<rparr>))
       (vindex_info L index c))"

definition tenant_connect ::
  "('d, 's) net \<Rightarrow> string \<Rightarrow> bytes \<Rightarrow> (string \<times> string) option \<Rightarrow> (net_error + ('d, 's) tenant) option"
where
  "tenant_connect L ep tid au = connect_with_index L ep tid au DEFAULT_INDEX_NAME"

text \<open>The pool is shared, so its state after the call is a result also of a failure.\<close>

definition from_pool ::
  "('d, 's) net \<Rightarrow> nat \<times> nat \<Rightarrow> ('d, 's) pool \<Rightarrow> bytes \<Rightarrow> string \<Rightarrow>
     ((net_error + ('d, 's) tenant) \<times> ('d, 's) pool) option"
where
  "from_pool L tm p tid index =
     map_option (\<lambda>(r, p). (res_bind r (\<lambda>(dim, count).
         Ok \<lparr>source = Pooled p, tenant_id = tid, embedding_dim = dim, record_count = count,
             index_name = index\<rparr>), p))
       (with_pooled L tm (vindex_info L index) p)"

definition refresh_record_count ::
  "('d, 's) net \<Rightarrow> nat \<times> nat \<Rightarrow> ('d, 's) tenant \<Rightarrow> ((net_error + u64) \<times> ('d, 's) tenant) option"
where
  "refresh_record_count L tm t =
     map_option (\<lambda>(r, src). case r of
         Err e \<Rightarrow> (Err e, t\<lparr>source := src\<rparr>)
       | Ok (_, count) \<Rightarrow> (Ok count, t\<lparr>source := src, record_count := count\<rparr>))
       (with_conn L tm (vindex_info L (index_name t)) (source t))"

definition iter_vectors :: "('d, 's) tenant \<Rightarrow> (u64 \<times> u32 list) list" where
  "iter_vectors t = []"

text \<open>The getters of the views, and \<open>close\<close>, which has nothing to do.\<close>

definition view_record_count :: "('d, 's) tenant \<Rightarrow> u64" where
  "view_record_count t = record_count t"

definition view_embedding_dim :: "('d, 's) tenant \<Rightarrow> u32" where
  "view_embedding_dim t = embedding_dim t"

definition view_tenant_id :: "('d, 's) tenant \<Rightarrow> bytes" where
  "view_tenant_id t = tenant_id t"

definition view_close :: "('d, 's) tenant \<Rightarrow> unit" where
  "view_close t = ()"

section \<open>The filtered query\<close>

datatype query_error =
    EmbeddingDimMismatch u32 u32
  | QueryIo io_error
  | IndexCorrupted msg

record record_meta =
  meta_id :: u64
  meta_shareable :: bool
  meta_tags :: "string list"

record hit =
  hit_id :: u64
  similarity :: u32
  hit_payload :: bytes
  embedding :: "u32 list option"

definition net_to_query :: "net_error \<Rightarrow> query_error" where
  "net_to_query e = (case e of Io io \<Rightarrow> QueryIo io | _ \<Rightarrow> IndexCorrupted (Lit ''net: '' # net_display e))"

text \<open>The reply to a search: the reading of an id, of a score and of the pairs of them.\<close>

definition parse_id :: "('d, 's) net \<Rightarrow> frame \<Rightarrow> net_error + u64" where
  "parse_id L f =
     (case f of
        Bulk b \<Rightarrow> ok_or (Protocol [Lit ''VSEARCH id not utf8 u64''])
          (case from_utf8 b of Ok s \<Rightarrow> parse_u64 s | Err _ \<Rightarrow> None)
      | Integer i \<Rightarrow> Ok i
      | _ \<Rightarrow> Err (Protocol [Lit ''VSEARCH id frame: '', Dbg (frame_debug L f)]))"

definition parse_score :: "('d, 's) net \<Rightarrow> frame \<Rightarrow> net_error + u32" where
  "parse_score L f =
     (case f of
        Double d \<Rightarrow> Ok (f64_to_f32 d)
      | Bulk b \<Rightarrow> ok_or (Protocol [Lit ''VSEARCH score not utf8 f32''])
          (case from_utf8 b of Ok s \<Rightarrow> parse_f32 s | Err _ \<Rightarrow> None)
      | _ \<Rightarrow> Err (Protocol [Lit ''VSEARCH score frame: '', Dbg (frame_debug L f)]))"

fun parse_pairs :: "('d, 's) net \<Rightarrow> frame list \<Rightarrow> net_error + (u64 \<times> u32) list" where
  "parse_pairs L (id_frame # score_frame # rest) =
     res_bind (parse_id L id_frame) (\<lambda>i.
     res_bind (parse_score L score_frame) (\<lambda>sim.
     res_bind (parse_pairs L rest) (\<lambda>cs. Ok ((i, sim) # cs))))"
| "parse_pairs L _ = Ok []"

definition parse_vsearch :: "('d, 's) net \<Rightarrow> frame \<Rightarrow> net_error + (u64 \<times> u32) list" where
  "parse_vsearch L reply =
     (case reply of
        Array pairs \<Rightarrow>
          (if length pairs mod 2 \<noteq> 0
           then Err (Protocol [Lit ''VSEARCH returned odd-length array: '', Disp (show_nat (length pairs))])
           else parse_pairs L pairs)
      | _ \<Rightarrow> Err (Protocol [Lit ''VSEARCH reply not Array: '', Dbg (frame_debug L reply)]))"

definition saturating_mul :: "u32 \<Rightarrow> u32 \<Rightarrow> u32" where
  "saturating_mul a b = (if unat a * unat b < 2 ^ 32 then a * b else 0xFFFFFFFF)"

definition oversample :: "u32 \<Rightarrow> u32" where
  "oversample top_k = max (saturating_mul top_k OVERSAMPLE) MIN_CANDIDATES"

text \<open>The closure the query runs on its connection: both round trips.\<close>

definition search ::
  "('d, 's) net \<Rightarrow> string \<Rightarrow> u32 list \<Rightarrow> u32 \<Rightarrow>
     (('d, 's) connection, (u64 \<times> u32) list \<times> frame list) op"
where
  "search L index emb n =
     op_bind (call L ''SKEG.VSEARCH''
         [as_bytes index, as_bytes (show_u32 n), as_bytes (show_u32 DEFAULT_L_SEARCH), encode_vector emb])
       (\<lambda>search_reply.
     op_bind (op_lift (parse_vsearch L search_reply)) (\<lambda>candidates.
     if candidates = [] then op_ok ([], [])
     else
       op_bind (call L ''MGET'' (map (\<lambda>(i, _). as_bytes (envelope_key_for i)) candidates))
         (\<lambda>mget_reply. op_lift (case mget_reply of
            Array rows \<Rightarrow> Ok (candidates, rows)
          | _ \<Rightarrow> Err (Protocol [Lit ''MGET reply not Array: '', Dbg (frame_debug L mget_reply)])))))"

text \<open>The loop over the candidates and their rows, with the hits so far in \<open>out\<close>.\<close>

fun assemble ::
  "codecs \<Rightarrow> (frame \<Rightarrow> string) \<Rightarrow> u32 \<Rightarrow> (record_meta \<Rightarrow> bool) \<Rightarrow> hit list \<Rightarrow> (u64 \<times> u32) list \<Rightarrow>
     frame list \<Rightarrow> query_error + hit list"
where
  "assemble ext dbg top_k accept out ((i, sim) # cs) (row # rows) =
     (case row of
        Null \<Rightarrow> assemble ext dbg top_k accept out cs rows
      | Bulk b \<Rightarrow>
          (case decode ext b of
             Err e \<Rightarrow> Err (IndexCorrupted (Lit ''envelope decode: '' # envelope_display e))
           | Ok env \<Rightarrow>
               (if \<not> accept \<lparr>meta_id = i, meta_shareable = shareable env, meta_tags = tags env\<rparr>
                then assemble ext dbg top_k accept out cs rows
                else
                  (let out = out @ [\<lparr>hit_id = i, similarity = sim, hit_payload = payload env,
                     embedding = None\<rparr>]
                   in if top_k \<le> of_nat (length out) then Ok out
                      else assemble ext dbg top_k accept out cs rows)))
      | _ \<Rightarrow> Err (IndexCorrupted [Lit ''MGET row not Bulk: '', Dbg (dbg row)]))"
| "assemble ext dbg top_k accept out _ _ = Ok out"

definition query_filtered ::
  "codecs \<Rightarrow> ('d, 's) net \<Rightarrow> nat \<times> nat \<Rightarrow> ('d, 's) tenant \<Rightarrow> u32 list \<Rightarrow> u32 \<Rightarrow> (record_meta \<Rightarrow> bool) \<Rightarrow>
     ((query_error + hit list) \<times> ('d, 's) tenant) option"
where
  "query_filtered ext L tm t emb top_k accept =
     (if of_nat (length emb) \<noteq> embedding_dim t
      then Some (Err (EmbeddingDimMismatch (embedding_dim t) (of_nat (length emb))), t)
      else
        map_option (\<lambda>(r, src).
            (res_bind (map_err net_to_query r) (\<lambda>(candidates, envelopes).
               assemble ext (frame_debug L) top_k accept [] candidates envelopes), t\<lparr>source := src\<rparr>))
          (with_conn L tm (search L (index_name t) emb (oversample top_k)) (source t)))"

end
