(* ===== verification/F32Props.thy ===== *)
theory F32Props
  imports F32 Complex_Main
begin

text \<open>
  The two conversions to \<open>f32\<close> are correctly rounded: the bits they give are those of the
  \<open>f32\<close> nearest to the exact value, and of the even one of two that are equally near.
\<close>

section \<open>Values\<close>

text \<open>
  The value of a pattern without its sign, in units of \<open>2 ^ -149\<close>: a subnormal is its own
  bits, otherwise the leading one is added and the exponent applied. The pattern of infinity
  counts as the power of two that follows the largest number, which is what rounding to
  nearest takes it for.
\<close>

definition f32_units :: "nat \<Rightarrow> nat" where
  "f32_units b = (if b < 2 ^ 23 then b else (2 ^ 23 + b mod 2 ^ 23) * 2 ^ (b div 2 ^ 23 - 1))"

definition f32_value :: "nat \<Rightarrow> real" where
  "f32_value b = real (f32_units b) / 2 ^ 149"

definition rounds_to :: "real \<Rightarrow> nat \<Rightarrow> bool" where
  "rounds_to x r \<longleftrightarrow> r \<le> F32_INF \<and>
     (\<forall>b \<le> F32_INF. b \<noteq> r \<longrightarrow>
        \<bar>f32_value r - x\<bar> < \<bar>f32_value b - x\<bar> \<or> \<bar>f32_value r - x\<bar> = \<bar>f32_value b - x\<bar> \<and> even r)"

lemma f32_units_scaled:
  assumes "k = 0 \<or> 2 ^ 23 \<le> m" and "m \<le> 2 ^ 24"
  shows "f32_units (k * 2 ^ 23 + m) = m * 2 ^ k"
proof (cases "m < 2 ^ 23")
  case True
  with assms(1) show ?thesis by (simp add: f32_units_def)
next
  case False
  show ?thesis
  proof (cases "m = 2 ^ 24")
    case True
    then have "k * 2 ^ 23 + m = (k + 2) * 2 ^ 23" by simp
    then show ?thesis using True by (simp add: f32_units_def)
  next
    case m: False
    define j where "j = m - 2 ^ 23"
    have j: "m = 2 ^ 23 + j" "j < 2 ^ 23" using False m assms(2) by (auto simp: j_def)
    then have "k * 2 ^ 23 + m = (k + 1) * 2 ^ 23 + j" by simp
    then show ?thesis using j by (simp add: f32_units_def)
  qed
qed

lemma f32_split:
  obtains k m where "b = k * 2 ^ 23 + m" "k = 0 \<or> 2 ^ 23 \<le> m" "m < (2 ^ 24 :: nat)" "f32_units b = m * 2 ^ k"
proof (cases "b < 2 ^ 23")
  case True
  then show ?thesis using that [of 0 b] by (simp add: f32_units_def)
next
  case False
  define k where "k = b div 2 ^ 23 - 1"
  define m where "m = 2 ^ 23 + b mod 2 ^ 23"
  have "b div 2 ^ 23 = Suc k" using False by (simp add: k_def Suc_leI div_greater_zero_iff)
  then have b: "b = k * 2 ^ 23 + m" using div_mult_mod_eq [of b "2 ^ 23"] by (simp add: m_def)
  have "b mod 2 ^ 23 < 2 ^ 23" by simp
  then have m: "2 ^ 23 \<le> m" "m < 2 ^ 24" unfolding m_def by simp_all
  show ?thesis using that [OF b _ m(2)] m f32_units_scaled [of k m] b by simp
qed

lemma f32_units_Suc: "f32_units b < f32_units (Suc b)"
proof -
  obtain k m where s: "b = k * 2 ^ 23 + m" "k = 0 \<or> 2 ^ 23 \<le> m" "m < (2 ^ 24 :: nat)" "f32_units b = m * 2 ^ k"
    by (rule f32_split)
  have "f32_units (k * 2 ^ 23 + Suc m) = Suc m * 2 ^ k"
    using s by (intro f32_units_scaled) auto
  then show ?thesis using s by simp
qed

lemma f32_units_less: "a < b \<Longrightarrow> f32_units a < f32_units b"
  by (rule lift_Suc_mono_less [where f = f32_units]) (rule f32_units_Suc)

lemma f32_value_less: "a < b \<Longrightarrow> f32_value a < f32_value b"
  by (simp add: f32_value_def f32_units_less divide_strict_right_mono)

lemma f32_value_le: "a \<le> b \<Longrightarrow> f32_value a \<le> f32_value b"
  using f32_value_less [of a b] by (cases "a = b") auto

lemma f32_units_eq: "f32_units a = f32_units b \<longleftrightarrow> a = b"
  using f32_units_less by (metis less_irrefl linorder_neqE_nat)

lemma f32_value_eq: "f32_value a = f32_value b \<longleftrightarrow> a = b"
  by (simp add: f32_value_def f32_units_eq)

text \<open>An exact value is kept.\<close>

lemma rounds_to_self: "b \<le> F32_INF \<Longrightarrow> rounds_to (f32_value b) b"
  by (simp add: rounds_to_def f32_value_eq)

lemma rounds_to_exact: "rounds_to (f32_value b) r \<Longrightarrow> b \<le> F32_INF \<Longrightarrow> r = b"
proof (rule ccontr)
  assume r: "rounds_to (f32_value b) r" "b \<le> F32_INF" and "r \<noteq> b"
  then have "\<bar>f32_value r - f32_value b\<bar> \<le> \<bar>f32_value b - f32_value b\<bar>"
    unfolding rounds_to_def by fastforce
  with \<open>r \<noteq> b\<close> show False by (simp add: f32_value_eq)
qed

section \<open>The exponent\<close>

lemma log2_bounds: "0 < n \<Longrightarrow> 2 ^ log2 n \<le> n \<and> n < 2 ^ (log2 n + 1)"
proof (induction n rule: log2.induct)
  case (1 n)
  show ?case
  proof (cases "n \<le> 1")
    case True
    with 1 show ?thesis by (simp add: log2.simps)
  next
    case False
    with 1 have "2 ^ log2 (n div 2) \<le> n div 2 \<and> n div 2 < 2 ^ (log2 (n div 2) + 1)" by auto
    then show ?thesis using False by (subst (1 2) log2.simps) auto
  qed
qed

lemma log2_ratio:
  assumes "0 < d" "d \<le> n"
  shows "d * 2 ^ log2 (n div d) \<le> n \<and> n < d * 2 ^ (log2 (n div d) + 1)"
proof -
  let ?q = "n div d"
  have "0 < ?q" using assms by (simp add: div_greater_zero_iff)
  from log2_bounds [OF this] have q: "2 ^ log2 ?q \<le> ?q" "Suc ?q \<le> 2 ^ (log2 ?q + 1)" by auto
  have "d * 2 ^ log2 ?q \<le> d * ?q" using q(1) by (rule mult_le_mono2)
  also have "\<dots> \<le> n" by simp
  finally have "d * 2 ^ log2 ?q \<le> n" .
  moreover have "n < d * Suc ?q" using dividend_less_times_div [of d n] assms(1) by simp
  with q(2) have "n < d * 2 ^ (log2 ?q + 1)" using mult_le_mono2 [OF q(2), of d] by linarith
  ultimately show ?thesis by simp
qed

lemma log2_ratio_real:
  assumes "0 < d" "d \<le> n"
  shows "real d * 2 ^ log2 (n div d) \<le> real n" and "real n < real d * 2 ^ (log2 (n div d) + 1)"
proof -
  have "real (d * 2 ^ log2 (n div d)) \<le> real n" "real n < real (d * 2 ^ (log2 (n div d) + 1))"
    using log2_ratio [OF assms] by (simp_all only: of_nat_le_iff of_nat_less_iff)
  then show "real d * 2 ^ log2 (n div d) \<le> real n" "real n < real d * 2 ^ (log2 (n div d) + 1)"
    by (simp_all only: of_nat_mult of_nat_power of_nat_numeral)
qed

lemma ratio_exp_bounds:
  assumes "0 < n" "0 < d"
  shows "2 powi ratio_exp n d \<le> real n / real d \<and> real n / real d < 2 powi (ratio_exp n d + 1)"
proof (cases "d \<le> n")
  case True
  let ?k = "log2 (n div d)"
  from log2_ratio_real [OF assms(2) True] have "2 ^ ?k \<le> real n / real d" "real n / real d < 2 ^ (?k + 1)"
    using assms by (simp_all add: field_simps)
  moreover have "ratio_exp n d = int ?k" using True by (simp add: ratio_exp_def)
  ultimately show ?thesis by (simp add: power_int_add)
next
  case False
  let ?k = "log2 (d div n)"
  have "n \<le> d" using False by simp
  note k = log2_ratio_real [OF assms(1) this]
  show ?thesis
  proof (cases "d \<le> n * 2 ^ ?k")
    case True
    then have "real d \<le> real (n * 2 ^ ?k)" by (simp only: of_nat_le_iff)
    with k have "real n / real d = 1 / 2 ^ ?k" using assms by (simp add: field_simps)
    moreover have "ratio_exp n d = - int ?k" using True False by (simp add: ratio_exp_def)
    moreover have "(2 :: real) powi (- int ?k) = 1 / 2 ^ ?k" "(2 :: real) powi (- int ?k + 1) = 2 / 2 ^ ?k"
      by (simp_all add: power_int_minus power_int_diff inverse_eq_divide)
    ultimately show ?thesis by (simp add: divide_strict_right_mono)
  next
    case less: False
    then have "real (n * 2 ^ ?k) < real d" by (simp only: of_nat_less_iff not_le)
    with k have "1 / (2 * 2 ^ ?k) \<le> real n / real d" "real n / real d < 1 / 2 ^ ?k"
      using assms by (simp_all add: field_simps)
    moreover have "ratio_exp n d = - int (Suc ?k)" using less False by (simp add: ratio_exp_def)
    moreover have "(2 :: real) powi (- int (Suc ?k)) = 1 / (2 * 2 ^ ?k)"
      by (simp only: power_int_minus power_int_of_nat power_Suc inverse_eq_divide)
    moreover have "(2 :: real) powi (- int (Suc ?k) + 1) = 1 / 2 ^ ?k"
      by (simp add: power_int_minus inverse_eq_divide)
    ultimately show ?thesis by simp
  qed
qed

section \<open>Rounding\<close>

lemma round_half_even_near:
  assumes "0 < b"
  shows "2 * \<bar>real (round_half_even a b) - real a / real b\<bar> \<le> 1 \<and>
    (2 * \<bar>real (round_half_even a b) - real a / real b\<bar> = 1 \<longrightarrow> even (round_half_even a b))"
proof -
  define q where "q = a div b"
  define r where "r = a mod b"
  have "a = q * b + r" and r: "r < b" using assms by (simp_all add: q_def r_def)
  then have a: "real a / real b = real q + real r / real b" using assms by (simp add: field_simps)
  have m: "round_half_even a b = (if b < 2 * r \<or> (2 * r = b \<and> odd q) then q + 1 else q)"
    by (simp only: round_half_even_def q_def r_def Let_def)
  consider "b < 2 * r" | "2 * r = b" | "2 * r < b" by linarith
  then show ?thesis
  proof cases
    case 1
    then have "real b < real (2 * r)" "real r < real b" using r by (simp_all only: of_nat_less_iff)
    then have "1 < 2 * (real r / real b)" "real r / real b < 1" using assms by (simp_all add: field_simps)
    then show ?thesis using 1 by (simp add: m a)
  next
    case 2
    then have "2 * (real r / real b) = 1" using assms by auto
    then show ?thesis using 2 by (auto simp: m a)
  next
    case 3
    then have "real (2 * r) < real b" by (simp only: of_nat_less_iff)
    then have "2 * (real r / real b) < 1" "0 \<le> real r / real b" using assms by (simp_all add: field_simps)
    then show ?thesis using 3 by (simp add: m a)
  qed
qed

lemma nearest_nat:
  assumes "2 * \<bar>real m - y\<bar> \<le> 1" and "z \<noteq> m"
  shows "\<bar>real m - y\<bar> < \<bar>real z - y\<bar> \<or> \<bar>real m - y\<bar> = \<bar>real z - y\<bar> \<and> 2 * \<bar>real m - y\<bar> = 1"
proof -
  have "1 \<le> \<bar>real z - real m\<bar>" using assms(2) by linarith
  with assms(1) show ?thesis by argo
qed

text \<open>Among the multiples of a unit and the numbers below \<open>2 ^ 23\<close> units, the rounded one is nearest.\<close>

lemma scaled_nearest:
  assumes near: "2 * \<bar>real m - y\<bar> \<le> 1" "2 * \<bar>real m - y\<bar> = 1 \<longrightarrow> even m"
    and norm: "k = 0 \<or> 2 ^ 23 \<le> y" and val: "f32_units (k * 2 ^ 23 + m) = m * 2 ^ k"
    and b: "b \<noteq> k * 2 ^ 23 + m"
  defines "u \<equiv> 2 ^ k / 2 ^ 149 :: real"
  shows "\<bar>real m * u - y * u\<bar> < \<bar>f32_value b - y * u\<bar> \<or>
    \<bar>real m * u - y * u\<bar> = \<bar>f32_value b - y * u\<bar> \<and> even m"
proof -
  have "0 < u" by (simp add: u_def)
  have scale: "\<bar>v * u - y * u\<bar> = \<bar>v - y\<bar> * u" for v
    using \<open>0 < u\<close> by (simp flip: left_diff_distrib add: abs_mult)
  obtain j l where s: "b = j * 2 ^ 23 + l" "l < (2 ^ 24 :: nat)" "f32_units b = l * 2 ^ j"
    by (rule f32_split)
  show ?thesis
  proof (cases "k \<le> j")
    case True
    define z where "z = l * 2 ^ (j - k)"
    have "f32_units b = z * 2 ^ k" using True s by (simp add: z_def flip: power_add)
    then have v: "f32_value b = real z * u" by (simp add: f32_value_def u_def)
    have "z \<noteq> m"
    proof
      assume "z = m"
      with \<open>f32_units b = z * 2 ^ k\<close> have "f32_units b = f32_units (k * 2 ^ 23 + m)" by (simp only: val)
      then show False using b by (simp only: f32_units_eq)
    qed
    from nearest_nat [OF near(1) this] near(2) show ?thesis unfolding v scale
      using \<open>0 < u\<close> by auto
  next
    case False
    then have y: "2 ^ 23 \<le> y" using norm by auto
    define z where "z = real l * 2 ^ j / 2 ^ k"
    have v: "f32_value b = z * u" using s by (simp add: f32_value_def u_def z_def)
    have "real l < real (2 ^ 24)" using s(2) by (simp only: of_nat_less_iff)
    then have "real l * 2 ^ j < 2 ^ 23 * (2 * 2 ^ j)" by simp
    also have "2 ^ 23 * (2 * 2 ^ j) \<le> (2 :: real) ^ 23 * 2 ^ k"
      using False power_increasing [of "Suc j" k "2 :: real"] by (intro mult_left_mono) simp_all
    finally have "real l * 2 ^ j < 2 ^ 23 * 2 ^ k" .
    then have "z < 2 ^ 23" by (simp add: z_def divide_less_eq)
    moreover have "\<bar>real m - y\<bar> \<le> \<bar>real (2 ^ 23) - y\<bar>"
      using nearest_nat [OF near(1), of "2 ^ 23"] by (cases "2 ^ 23 = m") auto
    ultimately have "\<bar>real m - y\<bar> < \<bar>z - y\<bar>" using y by simp
    then show ?thesis unfolding v scale using \<open>0 < u\<close> by simp
  qed
qed

text \<open>Beyond the largest number the nearest pattern is the one of infinity.\<close>

lemma rounds_to_min:
  assumes "\<And>b. b \<noteq> r \<Longrightarrow> \<bar>f32_value r - x\<bar> < \<bar>f32_value b - x\<bar> \<or>
    \<bar>f32_value r - x\<bar> = \<bar>f32_value b - x\<bar> \<and> even r"
  shows "rounds_to x (min F32_INF r)"
proof (cases "r \<le> F32_INF")
  case True
  then show ?thesis using assms by (simp add: rounds_to_def)
next
  case False
  then have "f32_value F32_INF < f32_value r" by (simp add: f32_value_less)
  with assms [of F32_INF] False have "f32_value F32_INF < x" by (auto simp: abs_if split: if_splits)
  then have "\<bar>f32_value F32_INF - x\<bar> < \<bar>f32_value b - x\<bar>" if "b \<le> F32_INF" "b \<noteq> F32_INF" for b
    using f32_value_less [of b F32_INF] that by simp
  with False show ?thesis by (auto simp: rounds_to_def)
qed

text \<open>The significand \<open>round_f32\<close> rounds to at the exponent \<open>e\<close>, and the weight of its units.\<close>

lemma significand_near:
  fixes e :: int
  assumes "0 < d" and "y = real n / real d * 2 powi (23 - e)"
    and "m = (if e \<le> 23 then round_half_even (n * 2 ^ nat (23 - e)) d
      else round_half_even n (d * 2 ^ nat (e - 23)))"
  shows "2 * \<bar>real m - y\<bar> \<le> 1 \<and> (2 * \<bar>real m - y\<bar> = 1 \<longrightarrow> even m)"
proof (cases "e \<le> 23")
  case True
  then have "y = real (n * 2 ^ nat (23 - e)) / real d" by (simp add: assms(2) power_int_def)
  then show ?thesis using True round_half_even_near [OF assms(1), of "n * 2 ^ nat (23 - e)"]
    by (simp add: assms(3))
next
  case False
  then have "y = real n / real (d * 2 ^ nat (e - 23))"
    by (simp add: assms(2) power_int_def power_one_over nat_diff_distrib')
  then show ?thesis using False round_half_even_near [of "d * 2 ^ nat (e - 23)" n] assms(1)
    by (simp add: assms(3))
qed

lemma significand_weight:
  assumes "- 126 \<le> (e :: int)"
  shows "2 powi (23 - e) * ((2 :: real) ^ nat (e + 126) / 2 ^ 149) = 1"
proof -
  have "(2 :: real) ^ nat (e + 126) = 2 powi (e + 126)" using assms by (simp flip: power_int_of_nat)
  moreover have "(2 :: real) powi (23 - e) * 2 powi (e + 126) = 2 ^ 149"
    by (simp flip: power_int_add)
  ultimately show ?thesis by simp
qed

lemma round_f32_rounds:
  assumes "0 < d"
  shows "rounds_to (real n / real d) (round_f32 n d)"
proof (cases "n = 0")
  case True
  have "0 < f32_value b" if "b \<noteq> 0" for b using f32_value_less [of 0 b] that by (simp add: f32_value_def f32_units_def)
  then show ?thesis using True by (simp add: round_f32_def rounds_to_def f32_value_def f32_units_def)
next
  case False
  define e where "e = max (ratio_exp n d) (- 126)"
  define k where "k = nat (e + 126)"
  define y where "y = real n / real d * 2 powi (23 - e)"
  define m where "m = (if e \<le> 23 then round_half_even (n * 2 ^ nat (23 - e)) d
    else round_half_even n (d * 2 ^ nat (e - 23)))"
  note near = significand_near [OF assms y_def m_def]
  have bounds: "2 powi ratio_exp n d \<le> real n / real d" "real n / real d < 2 powi (ratio_exp n d + 1)"
    using ratio_exp_bounds [of n d] False assms by auto
  have "y < 2 powi (ratio_exp n d + 1) * 2 powi (23 - e)"
    unfolding y_def using bounds(2) by (rule mult_strict_right_mono) simp
  also have "\<dots> = 2 powi (ratio_exp n d + 24 - e)" by (simp flip: power_int_add add: algebra_simps)
  also have "\<dots> \<le> 2 powi 24" by (rule power_int_increasing) (simp_all add: e_def)
  finally have y24: "y < 2 ^ 24" by simp
  have norm: "k = 0 \<or> 2 ^ 23 \<le> y"
  proof (cases "k = 0")
    case False
    then have "ratio_exp n d = e" by (simp add: k_def e_def max_def split: if_splits)
    then have "2 powi e * 2 powi (23 - e) \<le> y"
      unfolding y_def using bounds(1) by (intro mult_right_mono) simp_all
    then show ?thesis by (simp flip: power_int_add)
  qed simp
  have "real m - y \<le> 1 / 2" "y - real m \<le> 1 / 2" using conjunct1 [OF near] by argo+
  then have "real m < real (2 ^ 24 + 1)" using y24 by (simp only: of_nat_add of_nat_power of_nat_numeral of_nat_1)
  then have m24: "m \<le> 2 ^ 24" by (simp only: of_nat_less_iff)
  have "k = 0 \<or> 2 ^ 23 \<le> m" using norm near by (auto simp: abs_le_iff)
  from f32_units_scaled [OF this m24] have val: "f32_units (k * 2 ^ 23 + m) = m * 2 ^ k" .
  have x: "real n / real d = y * (2 ^ k / 2 ^ 149)"
    using significand_weight [of e] unfolding y_def k_def mult.assoc by (simp add: e_def)
  have "rounds_to (real n / real d) (min F32_INF (k * 2 ^ 23 + m))"
    unfolding x
    using scaled_nearest [OF conjunct1 [OF near] conjunct2 [OF near] norm val] val
    by (intro rounds_to_min) (simp add: f32_value_def)
  then show ?thesis using False by (simp only: round_f32_def e_def k_def m_def Let_def if_False)
qed

section \<open>The cast and the parser\<close>

text \<open>The value of a finite \<open>f64\<close> without its sign.\<close>

definition f64_finite :: "u64 \<Rightarrow> bool" where
  "f64_finite w \<longleftrightarrow> unat w div 2 ^ 52 mod 2 ^ 11 \<noteq> 2047"

definition f64_value :: "u64 \<Rightarrow> real" where
  "f64_value w =
     (let ex = unat w div 2 ^ 52 mod 2 ^ 11; man = unat w mod 2 ^ 52 in
      if ex = 0 then real man / 2 ^ 1074 else (2 ^ 52 + real man) * 2 powi (int ex - 1075))"

definition negative64 :: "u64 \<Rightarrow> bool" where
  "negative64 w \<longleftrightarrow> 2 ^ 63 \<le> unat w"

lemma f64_to_f32_rounds:
  assumes "f64_finite w"
  shows "\<exists>r. f64_to_f32 w = with_sign (negative64 w) r \<and> rounds_to (f64_value w) r"
proof -
  define ex where "ex = unat w div 2 ^ 52 mod 2 ^ 11"
  define man where "man = unat w mod 2 ^ 52"
  have "ex \<noteq> 2047" using assms by (simp add: f64_finite_def ex_def)
  then have cast: "f64_to_f32 w = with_sign (negative64 w)
      (if ex = 0 then round_f32 man (2 ^ 1074)
       else if ex \<le> 1075 then round_f32 (2 ^ 52 + man) (2 ^ (1075 - ex))
       else round_f32 ((2 ^ 52 + man) * 2 ^ (ex - 1075)) 1)"
    by (simp only: f64_to_f32_def Let_def negative64_def ex_def man_def if_False)
  have val: "f64_value w = (if ex = 0 then real man / real (2 ^ 1074) else
      real (2 ^ 52 + man) * 2 powi (int ex - 1075))"
    by (simp add: f64_value_def Let_def ex_def man_def)
  consider "ex = 0" | "ex \<noteq> 0" "ex \<le> 1075" | "1075 < ex" by linarith
  then show ?thesis
  proof cases
    case 1
    then show ?thesis using round_f32_rounds [of "2 ^ 1074" man] by (simp only: cast val if_True) auto
  next
    case 2
    then have "real (2 ^ 52 + man) * 2 powi (int ex - 1075) = real (2 ^ 52 + man) / real (2 ^ (1075 - ex))"
      by (simp add: power_int_def power_one_over nat_diff_distrib')
    with 2 show ?thesis using round_f32_rounds [of "2 ^ (1075 - ex)" "2 ^ 52 + man"]
      by (simp only: cast val if_True if_False) auto
  next
    case 3
    then have "real (2 ^ 52 + man) * 2 powi (int ex - 1075) = real ((2 ^ 52 + man) * 2 ^ (ex - 1075)) / real 1"
      by (simp add: power_int_def nat_diff_distrib')
    with 3 show ?thesis using round_f32_rounds [of 1 "(2 ^ 52 + man) * 2 ^ (ex - 1075)"]
      by (simp only: cast val if_True if_False) auto
  qed
qed

text \<open>
  A number in decimal notation: a sign, the digits before the point and after it, of which
  there is at least one, and an exponent.
\<close>

definition decimal_text :: "string \<Rightarrow> nat list \<Rightarrow> nat list \<Rightarrow> int option \<Rightarrow> string" where
  "decimal_text sg ip fp ex =
     sg @ map digit_char ip @ (if fp = [] then [] else CHR ''.'' # map digit_char fp) @
     (case ex of None \<Rightarrow> [] | Some e \<Rightarrow> CHR ''e'' # show_int e)"

definition decimal_ok :: "string \<Rightarrow> nat list \<Rightarrow> nat list \<Rightarrow> int option \<Rightarrow> bool" where
  "decimal_ok sg ip fp ex \<longleftrightarrow>
     sg \<in> {[], ''-'', ''+''} \<and> list_all (\<lambda>d. d < 10) (ip @ fp) \<and> ip @ fp \<noteq> [] \<and>
     (case ex of None \<Rightarrow> True | Some e \<Rightarrow> \<bar>e\<bar> < 65536)"

definition decimal_value :: "nat list \<Rightarrow> nat list \<Rightarrow> int option \<Rightarrow> real" where
  "decimal_value ip fp ex =
     real (digits_value (ip @ fp)) * 10 powi ((case ex of None \<Rightarrow> 0 | Some e \<Rightarrow> e) - int (length fp))"

lemma span_digits_append:
  "list_all (\<lambda>d. d < 10) ds \<Longrightarrow> r = [] \<or> char_digit (hd r) = None \<Longrightarrow>
   span_digits (map digit_char ds @ r) = (ds, r)"
proof (induction ds)
  case Nil
  then show ?case by (cases r) auto
qed simp

lemma foldl_digits_ge: "a \<le> foldl (\<lambda>a d. 10 * a + d) a (ds :: nat list)"
proof (induction ds arbitrary: a)
  case (Cons d ds)
  from Cons [of "10 * a + d"] show ?case by simp
qed simp

lemma exp_value_small: "digits_value ds < 65536 \<Longrightarrow> exp_value ds = digits_value ds"
proof -
  have "foldl (\<lambda>a d. if a < 65536 then 10 * a + d else a) a ds = foldl (\<lambda>a d. 10 * a + d) a ds"
    if "foldl (\<lambda>a d. 10 * a + d) a ds < 65536" for a
    using that
  proof (induction ds arbitrary: a)
    case (Cons d ds)
    with foldl_digits_ge [of "10 * a + d" ds] show ?case by simp
  qed simp
  then show "digits_value ds < 65536 \<Longrightarrow> exp_value ds = digits_value ds"
    by (simp add: exp_value_def digits_value_def)
qed

lemma show_nat_as_digits: "\<exists>ds. show_nat n = map digit_char ds \<and> list_all (\<lambda>d. d < 10) ds \<and> digits_value ds = n"
proof (induction n rule: show_nat.induct)
  case (1 n)
  show ?case
  proof (cases "n < 10")
    case True
    then show ?thesis by (intro exI [of _ "[n]"]) (simp add: show_nat.simps digits_value_def)
  next
    case False
    with 1 obtain ds where "show_nat (n div 10) = map digit_char ds" "list_all (\<lambda>d. d < 10) ds"
        "digits_value ds = n div 10" by blast
    then show ?thesis using False
      by (intro exI [of _ "ds @ [n mod 10]"]) (subst show_nat.simps, simp add: digits_value_def)
  qed
qed

lemma parse_exponent_show:
  assumes "\<bar>e\<bar> < 65536"
  shows "parse_exponent (CHR ''e'' # show_int e) = Some e"
proof -
  obtain ds where ds: "show_nat (nat \<bar>e\<bar>) = map digit_char ds" "list_all (\<lambda>d. d < 10) ds"
      "digits_value ds = nat \<bar>e\<bar>" using show_nat_as_digits by blast
  have sp: "span_digits (show_nat (nat \<bar>e\<bar>)) = (ds, [])"
    using span_digits_append [OF ds(2), of "[]"] ds(1) by simp
  have v: "int (exp_value ds) = \<bar>e\<bar>" using exp_value_small [of ds] ds(3) assms by simp
  have "ds \<noteq> []" using ds(1) by auto
  show ?thesis
  proof (cases "e < 0")
    case True
    with sp v \<open>ds \<noteq> []\<close> show ?thesis by (simp add: parse_exponent_def show_int_def)
  next
    case False
    obtain c r where cr: "show_nat (nat e) = c # r" by (cases "show_nat (nat e)") auto
    with False sp v \<open>ds \<noteq> []\<close> show_nat_hd_not_plus [OF cr] show ?thesis
      by (simp add: parse_exponent_def show_int_def)
  qed
qed

lemma parse_decimal_text:
  assumes "decimal_ok [] ip fp ex"
  shows "parse_decimal (decimal_text [] ip fp ex) =
    Some (digits_value (ip @ fp), (case ex of None \<Rightarrow> 0 | Some e \<Rightarrow> e) - int (length fp))"
proof -
  let ?x = "case ex of None \<Rightarrow> [] | Some e \<Rightarrow> CHR ''e'' # show_int e"
  have no_digit: "char_digit CHR ''.'' = None" "char_digit CHR ''e'' = None" by (simp_all add: char_digit_def)
  have ds: "list_all (\<lambda>d. d < 10) ip" "list_all (\<lambda>d. d < 10) fp" "ip @ fp \<noteq> []"
    using assms by (simp_all add: decimal_ok_def)
  have x: "?x = [] \<or> char_digit (hd ?x) = None" "?x = [] \<or> hd ?x \<noteq> CHR ''.''"
    by (simp_all add: no_digit split: option.split)
  have pe: "parse_exponent ?x = Some (case ex of None \<Rightarrow> 0 | Some e \<Rightarrow> e)"
  proof (cases ex)
    case None
    then show ?thesis by (simp add: parse_exponent_def)
  next
    case (Some e)
    then show ?thesis using assms parse_exponent_show by (simp add: decimal_ok_def)
  qed
  have fps: "span_digits (map digit_char fp @ ?x) = (fp, ?x)" by (rule span_digits_append [OF ds(2) x(1)])
  show ?thesis
  proof (cases "fp = []")
    case True
    have "span_digits (map digit_char ip @ ?x) = (ip, ?x)" by (rule span_digits_append [OF ds(1) x(1)])
    with True x(2) ds(3) pe show ?thesis
      by (cases ?x) (simp_all add: parse_decimal_def decimal_text_def Let_def)
  next
    case False
    have "span_digits (map digit_char ip @ CHR ''.'' # map digit_char fp @ ?x) = (ip, CHR ''.'' # map digit_char fp @ ?x)"
      by (rule span_digits_append [OF ds(1)]) (simp add: no_digit)
    with False fps ds(3) pe show ?thesis
      by (simp add: parse_decimal_def decimal_text_def Let_def)
  qed
qed

lemma decimal_text_hd:
  assumes "decimal_ok [] ip fp ex"
  shows "\<exists>c r. decimal_text [] ip fp ex = c # r \<and> c \<noteq> CHR ''-'' \<and> c \<noteq> CHR ''+''"
proof -
  have "digit_char d \<noteq> CHR ''-''" "digit_char d \<noteq> CHR ''+''" if "d < 10" for d
    using char_digit_digit_char [OF that] by (auto simp: char_digit_def)
  then show ?thesis using assms
    by (cases ip; cases fp) (auto simp: decimal_ok_def decimal_text_def)
qed

lemma parse_f32_rounds:
  assumes "decimal_ok sg ip fp ex"
  shows "\<exists>r. parse_f32 (decimal_text sg ip fp ex) = Some (with_sign (sg = ''-'') r) \<and>
    rounds_to (decimal_value ip fp ex) r"
proof -
  let ?t = "decimal_text [] ip fp ex"
  let ?e = "(case ex of None \<Rightarrow> 0 | Some e \<Rightarrow> e) - int (length fp)"
  define m where "m = digits_value (ip @ fp)"
  have ok: "decimal_ok [] ip fp ex" using assms by (simp add: decimal_ok_def)
  obtain c r where cr: "?t = c # r" "c \<noteq> CHR ''-''" "c \<noteq> CHR ''+''" using decimal_text_hd [OF ok] by blast
  have tx: "decimal_text sg ip fp ex = sg @ ?t" by (simp add: decimal_text_def)
  have "sg \<in> {[], ''-'', ''+''}" using assms by (simp add: decimal_ok_def)
  then have p: "parse_f32 (decimal_text sg ip fp ex) = Some (with_sign (sg = ''-'')
      (if 0 \<le> ?e then round_f32 (m * 10 ^ nat ?e) 1 else round_f32 m (10 ^ nat (- ?e))))"
    using parse_decimal_text [OF ok] cr unfolding tx m_def by (auto simp: parse_f32_def Let_def)
  show ?thesis
  proof (cases "0 \<le> ?e")
    case True
    then have "decimal_value ip fp ex = real (m * 10 ^ nat ?e) / real 1"
      by (simp add: decimal_value_def m_def power_int_def)
    with p True round_f32_rounds [of 1 "m * 10 ^ nat ?e"] show ?thesis by auto
  next
    case False
    then have "decimal_value ip fp ex = real m / real (10 ^ nat (- ?e))"
      by (simp add: decimal_value_def m_def power_int_def power_one_over)
    with p False round_f32_rounds [of "10 ^ nat (- ?e)" m] show ?thesis by auto
  qed
qed

lemma rounds_to_near:
  "rounds_to x r \<Longrightarrow> b \<le> F32_INF \<Longrightarrow> b \<noteq> r \<Longrightarrow>
   \<bar>f32_value r - x\<bar> < \<bar>f32_value b - x\<bar> \<or> \<bar>f32_value r - x\<bar> = \<bar>f32_value b - x\<bar> \<and> even r"
  by (simp add: rounds_to_def)

text \<open>At most one pattern is the rounded one, so the predicate determines the conversions.\<close>

lemma rounds_to_unique_less:
  assumes "rounds_to x r" "rounds_to x q" "r < q"
  shows False
proof -
  have le: "r \<le> F32_INF" "q \<le> F32_INF" using assms by (simp_all add: rounds_to_def)
  have near: "\<bar>f32_value r - x\<bar> = \<bar>f32_value q - x\<bar>" "even r" "even q"
    using rounds_to_near [OF assms(1) le(2)] rounds_to_near [OF assms(2) le(1)] assms(3) by auto
  then have "Suc r \<noteq> q" by auto
  then have "r < Suc r" "Suc r < q" using assms(3) by auto
  then have "f32_value r < f32_value (Suc r)" "f32_value (Suc r) < f32_value q"
    using f32_value_less by blast+
  with near have "\<bar>f32_value (Suc r) - x\<bar> < \<bar>f32_value r - x\<bar>" by argo
  moreover have "Suc r \<le> F32_INF" using \<open>Suc r < q\<close> assms(2) by (simp add: rounds_to_def)
  ultimately show False using rounds_to_near [OF assms(1), of "Suc r"] by simp
qed

lemma rounds_to_unique: "rounds_to x r \<Longrightarrow> rounds_to x q \<Longrightarrow> r = q"
  using rounds_to_unique_less by (metis linorder_neqE_nat)

end
