(* ===== verification/TenantProps.thy ===== *)
theory TenantProps
  imports Tenant F32Props EnvelopeProps ConnectionProps
begin

text \<open>
  What a remote tenant guarantees: the pool keeps its budget over a query and never sees a
  failed connection again, the index list is read back, and the hits of a filtered query
  are the first accepted candidates, at most the number asked for (but never none).
\<close>

section \<open>Borrowing\<close>

lemma acquire_cases:
  assumes "acquire L now p = Some (r, p')" and "queue_ok (config p) now (pstate p)"
  obtains (got) g c st where "r = Ok g" "conn g = Some c" "p' = p\<lparr>pstate := st\<rparr>"
      "in_use st = in_use (pstate p) + 1" "queue_ok (config p) now st"
      "set (idle st) \<subseteq> set (idle (pstate p))"
    | (refused) e st where "r = Err e" "p' = p\<lparr>pstate := st\<rparr>"
      "in_use st = in_use (pstate p)" "queue_ok (config p) now st"
      "set (idle st) \<subseteq> set (idle (pstate p))"
proof -
  obtain a st where a: "try_acquire now (config p) (pstate p) = (a, st)" by fastforce
  have ok: "queue_ok (config p) now st" by (rule try_acquire_queue_ok [OF assms(2) a])
  show thesis
  proof (cases "pstate p" now "config p" rule: try_acquire_cases)
    case (Reuse c ts q old)
    then show thesis using assms(1) a ok by (intro got) (auto simp: acquire_def)
  next
    case AtCap
    then show thesis using assms(1) by (simp add: acquire_def)
  next
    case Reserve
    then have st: "st = (pstate p)\<lparr>idle := [], in_use := in_use (pstate p) + 1\<rparr>" and "a = Reserve"
      using a by simp_all
    with assms(1) a obtain cr where cr: "connect L (endpoint p) (auth p) = Some cr"
      by (auto simp: acquire_def split: option.splits)
    show thesis
    proof (cases cr)
      case (Inl e)
      with assms(1) a cr \<open>a = Reserve\<close> obtain st' where
        st': "connect_failed st = Some st'" "r = Err e" "p' = p\<lparr>pstate := st'\<rparr>"
        by (auto simp: acquire_def)
      with connect_failed_queue_ok [OF ok st'(1)] st show thesis
        by (intro refused) (auto simp: connect_failed_def)
    next
      case (Inr c)
      with assms(1) a cr \<open>a = Reserve\<close> st ok show thesis by (intro got) (auto simp: acquire_def)
    qed
  qed
qed

text \<open>A pool lends a connection: what is left of the pool afterwards.\<close>

lemma with_pooled_pool:
  assumes "with_pooled L (t1, t2) f p = Some (r, p')"
    and ok: "queue_ok (config p) t1 (pstate p)" and "t1 \<le> t2"
  shows "config p' = config p \<and> queue_ok (config p) t2 (pstate p') \<and>
    in_use (pstate p') = in_use (pstate p) \<and>
    (is_err r \<longrightarrow> set (idle (pstate p')) \<subseteq> set (idle (pstate p)))"
proof -
  obtain ar p1 where a: "acquire L t1 p = Some (ar, p1)"
    using assms(1) by (cases "acquire L t1 p") (auto simp: with_pooled_def op_bind_def)
  from a ok show ?thesis
  proof (cases rule: acquire_cases)
    case (refused e st)
    then show ?thesis using assms(1,3) a
      by (auto simp: with_pooled_def op_bind_step intro: queue_ok_later)
  next
    case (got g c st)
    with assms(1) a obtain c' st' g' where f: "f c = Some (r, c')" "p' = p1\<lparr>pstate := st'\<rparr>"
      and d: "drop_guard t2 (config p1) g' (pstate p1) = Some st'"
      and g': "g' = after_use r (g\<lparr>conn := Some c'\<rparr>)"
      by (auto simp: with_pooled_def op_bind_step conn_mut_def bind_eq_Some_conv Let_def)
    have "queue_ok (config p) t2 st" using got(5) assms(3) by (rule queue_ok_later)
    then have "queue_ok (config p) t2 st'" using drop_guard_queue_ok d got(3) by simp
    moreover have "in_use st' = in_use (pstate p) \<and> (is_err r \<longrightarrow> idle st' = idle st)"
      using d got(3,4) g' by (auto simp: after_use_def drop_guard_def discard_def bind_eq_Some_conv split: if_splits)
    ultimately show ?thesis using f got by auto
  qed
qed

text \<open>
  The interface between the query and the source of connections: it runs an operation on
  some connection, and it keeps its own state in order.
\<close>

locale lender =
  fixes lend :: "('c, 'r) op \<Rightarrow> ('w, 'r) op" and before after :: "'w \<Rightarrow> bool"
  assumes lend_Ok: "lend f w = Some (Ok r, w') \<Longrightarrow> \<exists>c c'. f c = Some (Ok r, c')"
    and lend_order: "before w \<Longrightarrow> lend f w = Some (res, w') \<Longrightarrow> after w'"
begin

lemma lend_post:
  assumes "lend f w = Some (Ok r, w')" and "\<And>c c'. f c = Some (Ok r, c') \<Longrightarrow> P r"
  shows "P r"
  using lend_Ok [OF assms(1)] assms(2) by blast

end

text \<open>A source in order at a time.\<close>

fun source_ok :: "nat \<Rightarrow> ('d, 's) conn_source \<Rightarrow> bool" where
  "source_ok now (Owned c) = True"
| "source_ok now (Pooled p) = queue_ok (config p) now (pstate p)"

lemma with_pooled_Ok: "with_pooled L tm f p = Some (Ok r, p') \<Longrightarrow> \<exists>c c'. f c = Some (Ok r, c')"
  by (auto simp: with_pooled_def op_bind_eq_Some bind_eq_Some_conv)

lemma with_conn_lender:
  assumes "t1 \<le> t2"
  shows "lender (with_conn L (t1, t2)) (source_ok t1) (source_ok t2)"
proof
  fix f w r w'
  assume "with_conn L (t1, t2) f w = Some (Ok r, w')"
  then show "\<exists>c c'. f c = Some (Ok r, c')" by (cases w) (auto dest: with_pooled_Ok)
next
  fix f w r w'
  assume "source_ok t1 w" and "with_conn L (t1, t2) f w = Some (r, w')"
  then show "source_ok t2 w'" using with_pooled_pool [of L t1 t2 f] assms
    by (cases w) auto
qed

interpretation src: lender "with_conn L (t, t + d)" "source_ok t" "source_ok (t + d)" for L t d
  by (rule with_conn_lender) simp

section \<open>The hits\<close>

text \<open>The hit a candidate and its row give, when its envelope is readable and accepted.\<close>

definition accepted ::
  "codecs \<Rightarrow> (record_meta \<Rightarrow> bool) \<Rightarrow> (u64 \<times> u32) \<times> frame \<Rightarrow> hit option"
where
  "accepted ext accept e =
     (case e of ((i, sim), row) \<Rightarrow>
       (case row of
          Bulk b \<Rightarrow>
            (case decode ext b of
               Ok env \<Rightarrow>
                 (if accept \<lparr>meta_id = i, meta_shareable = shareable env, meta_tags = tags env\<rparr>
                  then Some \<lparr>hit_id = i, similarity = sim, hit_payload = payload env, embedding = None\<rparr>
                  else None)
             | Err _ \<Rightarrow> None)
        | _ \<Rightarrow> None))"

lemma accepted_simps:
  "accepted ext accept (c, Null) = None"
  "decode ext b = Ok env \<Longrightarrow> accepted ext accept ((i, sim), Bulk b) =
     (if accept \<lparr>meta_id = i, meta_shareable = shareable env, meta_tags = tags env\<rparr>
      then Some \<lparr>hit_id = i, similarity = sim, hit_payload = payload env, embedding = None\<rparr>
      else None)"
  by (auto simp: accepted_def)

text \<open>A row the loop can use: no envelope, or a readable one.\<close>

definition readable :: "codecs \<Rightarrow> frame \<Rightarrow> bool" where
  "readable ext row \<longleftrightarrow> row = Null \<or> (\<exists>b env. row = Bulk b \<and> decode ext b = Ok env)"

text \<open>The first hits, at most \<open>top_k\<close> but at least one.\<close>

definition first_hits :: "u32 \<Rightarrow> hit list \<Rightarrow> hit list" where
  "first_hits top_k hs = take (max 1 (unat top_k)) hs"

lemma top_k_reached:
  "length out < max 1 (unat (top_k :: u32)) \<Longrightarrow>
   top_k \<le> of_nat (Suc (length out)) \<longleftrightarrow> max 1 (unat top_k) = Suc (length out)"
  using unat_u32_less [of top_k] unat_of_nat_u32 [of "Suc (length out)"]
  by (auto simp: word_le_nat_alt max_def split: if_splits)

lemma assemble_Ok:
  "length out < max 1 (unat top_k) \<Longrightarrow> assemble ext dbg top_k accept out cs rows = Ok hits \<Longrightarrow>
   hits = first_hits top_k (out @ List.map_filter (accepted ext accept) (zip cs rows))"
proof (induction ext dbg top_k accept out cs rows arbitrary: hits rule: assemble.induct)
  case (1 ext dbg top_k accept out i sim cs row rows)
  show ?case
  proof (cases row)
    case Null
    with 1 show ?thesis by (simp add: map_filter_simps accepted_simps)
  next
    case (Bulk b)
    with "1.prems"(2) obtain env where env: "decode ext b = Ok env" by (auto split: sum.splits)
    let ?m = "\<lparr>meta_id = i, meta_shareable = shareable env, meta_tags = tags env\<rparr>"
    let ?h = "\<lparr>hit_id = i, similarity = sim, hit_payload = payload env, embedding = None\<rparr>"
    show ?thesis
    proof (cases "accept ?m")
      case False
      with 1 Bulk env show ?thesis by (simp add: map_filter_simps accepted_simps)
    next
      case True
      show ?thesis
      proof (cases "max 1 (unat top_k) = Suc (length out)")
        case full: True
        then have "top_k \<le> of_nat (length (out @ [?h]))" using top_k_reached [OF "1.prems"(1)] by simp
        with "1.prems"(2) full Bulk env True show ?thesis
          by (simp add: map_filter_simps accepted_simps first_hits_def)
      next
        case False
        then have more: "\<not> top_k \<le> of_nat (length (out @ [?h]))"
          using top_k_reached [OF "1.prems"(1)] by simp
        with "1.prems"(2) Bulk env True
        have "assemble ext dbg top_k accept (out @ [?h]) cs rows = Ok hits" by (simp add: Let_def)
        moreover have "length (out @ [?h]) < max 1 (unat top_k)" using "1.prems"(1) False by simp
        ultimately have "hits = first_hits top_k
            ((out @ [?h]) @ List.map_filter (accepted ext accept) (zip cs rows))"
          using "1.IH"(2) [OF Bulk env _ refl more] True by blast
        with Bulk env True show ?thesis by (simp add: map_filter_simps accepted_simps)
      qed
    qed
  qed (use "1.prems"(2) in auto)
qed (auto simp: first_hits_def map_filter_simps max_def)

lemma assemble_readable:
  "\<forall>row \<in> set rows. readable ext row \<Longrightarrow> \<exists>hits. assemble ext dbg top_k accept out cs rows = Ok hits"
  by (induction ext dbg top_k accept out cs rows rule: assemble.induct)
    (auto simp: readable_def Let_def)

lemma query_readable:
  assumes "of_nat (length emb) = embedding_dim t"
    and "with_conn L tm (search L (index_name t) emb (oversample top_k)) (source t) = Some (Ok (cs, rows), w)"
    and "\<forall>row \<in> set rows. readable ext row"
  shows "query_filtered ext L tm t emb top_k accept =
    Some (Ok (first_hits top_k (List.map_filter (accepted ext accept) (zip cs rows))), t\<lparr>source := w\<rparr>)"
proof -
  obtain hits where out: "assemble ext (frame_debug L) top_k accept [] cs rows = Ok hits"
    using assemble_readable assms(3) by blast
  from assemble_Ok [OF _ this] have "hits = first_hits top_k (List.map_filter (accepted ext accept) (zip cs rows))"
    by simp
  with out assms(1,2) show ?thesis by (simp add: query_filtered_def)
qed

section \<open>The index list\<close>

text \<open>A row of the list as the server prints it, for an index of a table.\<close>

definition render_row :: "string \<times> u32 \<times> u64 \<Rightarrow> string" where
  "render_row e = (case e of (n, d, c) \<Rightarrow>
     join_spaces [''name='' @ n, ''dim='' @ show_u32 d, ''n_vectors='' @ show_u64 c])"

definition plain_name :: "string \<Rightarrow> bool" where
  "plain_name n \<longleftrightarrow> (\<forall>c \<in> set n. 32 < (of_char c :: u8) \<and> (of_char c :: u8) < 0x80)"

lemma show_nat_plain: "plain_name (show_nat n)"
  by (auto simp: plain_name_def word_less_nat_alt unat_of_char dest!: show_nat_digit_range)

lemma ascii_word_kv: "ascii_word k \<Longrightarrow> plain_name v \<Longrightarrow> ascii_word (k @ v)"
  by (auto simp: ascii_word_def plain_name_def)

lemma split_kv: "CHR ''='' \<notin> set k \<Longrightarrow> split_once CHR ''='' (k @ CHR ''='' # v) = Some (k, v)"
  by (simp add: split_once_eq_Some)

lemma row_words:
  assumes "plain_name n"
  shows "\<forall>w \<in> set [''name='' @ n, ''dim='' @ show_u32 d, ''n_vectors='' @ show_u64 c]. ascii_word w"
proof -
  have "ascii_word ''name=''" "ascii_word ''dim=''" "ascii_word ''n_vectors=''"
    by (simp_all add: ascii_word_def)
  from this [THEN ascii_word_kv] assms show_nat_plain show ?thesis
    by (simp add: show_u32_def show_u64_def)
qed

lemma row_fields_render: "plain_name n \<Longrightarrow> row_fields (render_row (n, d, c)) = (Some n, Some d, Some c)"
  using split_whitespace_join [OF row_words, of n d c]
    split_kv [of "''name''" n] split_kv [of "''dim''" "show_u32 d"] split_kv [of "''n_vectors''" "show_u64 c"]
  by (simp add: row_fields_def render_row_def)

lemma row_line_render: "plain_name n \<Longrightarrow> row_line (Bulk (as_bytes (render_row (n, d, c)))) = Some (render_row (n, d, c))"
proof -
  assume "plain_name n"
  from ascii_join_spaces [OF row_words [OF this], of d c]
  have "utf8_valid (render_row (n, d, c))"
    by (intro utf8_valid_ascii) (auto simp: render_row_def as_bytes_def)
  then show ?thesis by (simp add: row_line_def utf8_lossy_valid utf8_valid_def)
qed

lemma find_index_table:
  "\<forall>e \<in> set table. plain_name (fst e) \<Longrightarrow>
   find_index index (map (\<lambda>e. Bulk (as_bytes (render_row e))) table) =
     (case map_of table index of
        Some r \<Rightarrow> Ok r
      | None \<Rightarrow> find_index index [])"
proof (induction table)
  case (Cons e table)
  obtain n d c where e: "e = (n, d, c)" by (cases e)
  with Cons show ?case by (simp add: row_line_render row_fields_render)
qed simp

section \<open>The search reply\<close>

text \<open>
  What a server may send for an id and for a score: the id as an integer or in decimal, the
  score as a finite double or in any decimal notation, with a sign, with digits on either side
  of the point and with an exponent, for which it is the nearest \<open>f32\<close> (the even one of two
  that are equally near, infinite beyond the range).
\<close>

definition id_frame :: "u64 \<Rightarrow> frame \<Rightarrow> bool" where
  "id_frame i f \<longleftrightarrow> f = Integer i \<or> f = Bulk (as_bytes (show_u64 i))"

definition score_frame :: "u32 \<Rightarrow> frame \<Rightarrow> bool" where
  "score_frame sim f \<longleftrightarrow>
     (\<exists>w b. f = Double w \<and> f64_finite w \<and> rounds_to (f64_value w) b \<and>
        sim = with_sign (negative64 w) b) \<or>
     (\<exists>sg ip fp ex b. f = Bulk (as_bytes (decimal_text sg ip fp ex)) \<and> decimal_ok sg ip fp ex \<and>
        rounds_to (decimal_value ip fp ex) b \<and> sim = with_sign (sg = ''-'') b)"

lemma parse_id_frame: "id_frame i f \<Longrightarrow> parse_id L f = Ok i"
proof -
  have "utf8_valid (show_u64 i)"
    using show_nat_plain by (intro utf8_valid_ascii) (auto simp: show_u64_def plain_name_def)
  then show "id_frame i f \<Longrightarrow> ?thesis" by (auto simp: id_frame_def parse_id_def)
qed

lemma decimal_text_ascii:
  assumes "decimal_ok sg ip fp ex"
  shows "utf8_valid (decimal_text sg ip fp ex)"
proof (rule utf8_valid_ascii)
  have digit: "of_char (digit_char d) < (0x80 :: u8)" if "d < 10" for d
    using that unat_of_char [of "digit_char d"] by (simp add: word_less_nat_alt of_char_digit_char)
  have "of_char c < (0x80 :: u8)" if "c \<in> set (show_int e)" for c e
    using that show_nat_plain by (auto simp: show_int_def plain_name_def split: if_splits)
  then show "\<forall>c \<in> set (decimal_text sg ip fp ex). of_char c < (0x80 :: u8)"
    using assms digit
    by (auto simp: decimal_text_def decimal_ok_def list_all_iff split: if_splits option.splits)
qed

lemma parse_score_frame:
  assumes "score_frame sim f"
  shows "parse_score L f = Ok sim"
  using assms unfolding score_frame_def
proof (elim disjE exE conjE)
  fix w b
  assume a: "f = Double w" "f64_finite w" "rounds_to (f64_value w) b" "sim = with_sign (negative64 w) b"
  obtain r where "f64_to_f32 w = with_sign (negative64 w) r" "rounds_to (f64_value w) r"
    using f64_to_f32_rounds [OF a(2)] by blast
  with a rounds_to_unique [OF a(3)] show ?thesis by (simp add: parse_score_def)
next
  fix sg ip fp ex b
  assume a: "f = Bulk (as_bytes (decimal_text sg ip fp ex))" "decimal_ok sg ip fp ex"
    "rounds_to (decimal_value ip fp ex) b" "sim = with_sign (sg = ''-'') b"
  obtain r where "parse_f32 (decimal_text sg ip fp ex) = Some (with_sign (sg = ''-'') r)"
      "rounds_to (decimal_value ip fp ex) r"
    using parse_f32_rounds [OF a(2)] by blast
  with a rounds_to_unique [OF a(3)] decimal_text_ascii [OF a(2)] show ?thesis
    by (simp add: parse_score_def)
qed

definition pair_frames :: "u64 \<times> u32 \<Rightarrow> frame \<times> frame \<Rightarrow> bool" where
  "pair_frames c p \<longleftrightarrow> id_frame (fst c) (fst p) \<and> score_frame (snd c) (snd p)"

abbreviation flat_pairs :: "(frame \<times> frame) list \<Rightarrow> frame list" where
  "flat_pairs ps \<equiv> concat (map (\<lambda>(f, g). [f, g]) ps)"

lemma length_flat_pairs: "length (flat_pairs ps) = 2 * length ps"
  by (induction ps) auto

lemma parse_pairs_after:
  "list_all2 pair_frames cs ps \<Longrightarrow>
   parse_pairs L (flat_pairs ps @ rest) = res_bind (parse_pairs L rest) (\<lambda>ds. Ok (cs @ ds))"
proof (induction rule: list_all2_induct)
  case Nil
  then show ?case by (cases "parse_pairs L rest") simp_all
next
  case (Cons c cs p ps)
  then show ?case
    by (cases p; cases "parse_pairs L rest") (auto simp: pair_frames_def parse_id_frame parse_score_frame)
qed

lemma parse_vsearch_pairs:
  assumes "list_all2 pair_frames cs ps"
  shows "parse_vsearch L (Array (flat_pairs ps)) = Ok cs"
  using parse_pairs_after [OF assms, of L "[]"] by (simp add: parse_vsearch_def length_flat_pairs)

text \<open>Every value there is can be sent in these ways, and a frame stands for one value only.\<close>

lemma score_frames:
  "f64_finite w \<Longrightarrow> \<exists>sim. score_frame sim (Double w)"
  "decimal_ok sg ip fp ex \<Longrightarrow> \<exists>sim. score_frame sim (Bulk (as_bytes (decimal_text sg ip fp ex)))"
  unfolding score_frame_def using f64_to_f32_rounds [of w] parse_f32_rounds [of sg ip fp ex] by blast+

text \<open>
  Frames that are no id or no score, with the error they are reported by: of another kind, or
  a text that is not UTF-8 or, for an id, has something else in it than digits and a sign.
\<close>

definition bad_id :: "('d, 's) net \<Rightarrow> frame \<Rightarrow> net_error \<Rightarrow> bool" where
  "bad_id L f e \<longleftrightarrow>
     (case f of
        Bulk b \<Rightarrow> e = Protocol [Lit ''VSEARCH id not utf8 u64''] \<and>
          (\<not> utf8_valid (string_of b) \<or> (\<exists>c \<in> set (string_of b). c \<noteq> CHR ''+'' \<and> char_digit c = None))
      | Integer i \<Rightarrow> False
      | _ \<Rightarrow> e = Protocol [Lit ''VSEARCH id frame: '', Dbg (frame_debug L f)])"

definition bad_score :: "('d, 's) net \<Rightarrow> frame \<Rightarrow> net_error \<Rightarrow> bool" where
  "bad_score L f e \<longleftrightarrow>
     (case f of
        Bulk b \<Rightarrow> e = Protocol [Lit ''VSEARCH score not utf8 f32''] \<and> \<not> utf8_valid (string_of b)
      | Double d \<Rightarrow> False
      | _ \<Rightarrow> e = Protocol [Lit ''VSEARCH score frame: '', Dbg (frame_debug L f)])"

lemma parse_digits_Some: "parse_digits n s = Some m \<Longrightarrow> \<forall>c \<in> set s. char_digit c \<noteq> None"
  by (induction n s rule: parse_digits.induct) (auto split: option.splits)

lemma parse_u64_Some: "parse_u64 s = Some i \<Longrightarrow> \<forall>c \<in> set s. c = CHR ''+'' \<or> char_digit c \<noteq> None"
  by (auto simp: parse_u64_def parse_uint_def split: option.splits list.splits if_splits dest!: parse_digits_Some)

lemma from_utf8_invalid: "\<not> utf8_valid (string_of b) \<Longrightarrow> from_utf8 b \<noteq> Ok s"
  by (auto simp: from_utf8_Ok)

lemma parse_bad_id: "bad_id L f e \<Longrightarrow> parse_id L f = Err e"
proof (cases f)
  case (Bulk b)
  assume bad: "bad_id L f e"
  show ?thesis
  proof (cases "from_utf8 b")
    case (Inr s)
    with bad Bulk have "\<exists>c \<in> set s. c \<noteq> CHR ''+'' \<and> char_digit c = None"
      by (auto simp: bad_id_def from_utf8_Ok)
    then have "parse_u64 s = None" using parse_u64_Some [of s] by (cases "parse_u64 s") fastforce+
    with Inr bad Bulk show ?thesis by (simp add: bad_id_def parse_id_def)
  qed (use bad Bulk in \<open>simp add: bad_id_def parse_id_def\<close>)
qed (simp_all add: bad_id_def parse_id_def)

lemma parse_bad_score: "bad_score L f e \<Longrightarrow> parse_score L f = Err e"
proof (cases f)
  case (Bulk b)
  then show "bad_score L f e \<Longrightarrow> ?thesis"
    by (cases "from_utf8 b") (auto simp: bad_score_def parse_score_def from_utf8_Ok)
qed (simp_all add: bad_score_def parse_score_def)

section \<open>The sample\<close>

text \<open>
  A network on which nothing is written and whose codec reads the frames of a table, each
  from two bytes; a tenant on a connection that will deliver the two replies of a query, and
  a pool that lends that connection.
\<close>

definition mute_net :: "(u8 \<times> frame) list \<Rightarrow> (bytes, script) net" where
  "mute_net table = (table_net table (chunked []))\<lparr>encode_frame := (\<lambda>_. []), write_all := (\<lambda>_ s. (Ok (), s))\<rparr>"

definition talk :: "u8 list \<Rightarrow> (bytes, script) connection" where
  "talk ks = \<lparr>stream = chunked (map (\<lambda>k. Ok [36, k]) ks), decoder = []\<rparr>"

lemma mute_call:
  "map_of table k = Some f \<Longrightarrow>
   call (mute_net table) cmd args (talk (k # ks)) = Some (reply_result f, talk ks)"
  by (simp add: call_unfold send_def op_bind_step recv_more [where b = "[36, k]"] recv_ready
      mute_net_def table_net_def talk_def chunked_def)

definition reply_table :: "(u8 \<times> frame) list" where
  "reply_table =
     [(1, Array [Integer 7, Double 0x3FF0000000000000, Integer 8, Double 0]),
      (2, Array [Bulk (encode_binary sample_codecs sample_envelope), Null]),
      (3, Array [Simple ''name=hansa dim=2 n_vectors=5'']),
      (4, Error ''ERR'')]"

definition sample_tenant :: "(bytes, script) tenant" where
  "sample_tenant = \<lparr>source = Owned (talk [1, 2]), tenant_id = [], embedding_dim = 2,
     record_count = 0, index_name = ''hansa''\<rparr>"

definition sample_pool :: "u8 list \<Rightarrow> (bytes, script) pool" where
  "sample_pool ks = \<lparr>endpoint = ''h:1'', auth = None, config = default_config,
     pstate = \<lparr>idle = [(talk ks, 0)], in_use = 0\<rparr>\<rparr>"

definition sample_hit :: hit where
  "sample_hit = \<lparr>hit_id = 7, similarity = f64_to_f32 0x3FF0000000000000,
     hit_payload = payload sample_envelope, embedding = None\<rparr>"

definition sample_rows :: "frame list" where
  "sample_rows = [Bulk (encode_binary sample_codecs sample_envelope), Null]"

definition sample_candidates :: "(u64 \<times> u32) list" where
  "sample_candidates = [(7, f64_to_f32 0x3FF0000000000000), (8, f64_to_f32 0)]"

lemma sample_search:
  "search (mute_net reply_table) ''hansa'' emb n (talk [1, 2]) =
     Some (Ok (sample_candidates, sample_rows), talk [])"
proof -
  have "call (mute_net reply_table) c a (talk [1, 2]) =
      Some (Ok (Array [Integer 7, Double 0x3FF0000000000000, Integer 8, Double 0]), talk [2])"
    and "call (mute_net reply_table) c a (talk [2]) = Some (Ok (Array sample_rows), talk [])" for c a
    by (simp_all add: mute_call reply_table_def reply_result_def sample_rows_def)
  then show ?thesis
    by (simp add: search_def op_bind_step parse_vsearch_def parse_id_def parse_score_def
        sample_candidates_def)
qed

lemma sample_decode: "decode sample_codecs (encode_binary sample_codecs sample_envelope) = Ok sample_envelope"
  using decode_encode_binary_dispatch [OF sample_storable, of sample_codecs "[]"] by simp

lemma sample_query:
  "query_filtered sample_codecs (mute_net reply_table) (0, 0 + 1) sample_tenant [0, 0] 5 meta_shareable =
     Some (Ok [sample_hit], sample_tenant\<lparr>source := Owned (talk [])\<rparr>)"
proof -
  have "shareable sample_envelope" by (simp add: sample_envelope_def)
  then show ?thesis
    using sample_search [of "[0, 0]" "oversample 5"]
    by (simp add: query_filtered_def sample_tenant_def sample_candidates_def sample_rows_def
        sample_decode sample_hit_def Let_def)
qed

section \<open>What callers can rely on\<close>

text \<open>
  C3: the hits of a query are, in the order of the candidates the server found, those whose
  envelope is there, readable and accepted by the filter, cut after \<open>top_k\<close> of them (after
  one when \<open>top_k\<close> is zero); candidates and envelopes are what the search returned on the
  connection it ran on.
\<close>

theorem query_hits:
  assumes "query_filtered ext L (now, now + d) t emb top_k accept = Some (Ok hits, t')"
  shows "\<exists>cs rows c c'.
    search L (index_name t) emb (oversample top_k) c = Some (Ok (cs, rows), c') \<and>
    hits = take (max 1 (unat top_k)) (List.map_filter (accepted ext accept) (zip cs rows))"
proof -
  obtain cs rows w where lend: "with_conn L (now, now + d)
      (search L (index_name t) emb (oversample top_k)) (source t) = Some (Ok (cs, rows), w)"
    and out: "assemble ext (frame_debug L) top_k accept [] cs rows = Ok hits"
    using assms by (auto simp: query_filtered_def res_bind_eq_Ok split: if_splits)
  from assemble_Ok [OF _ out] src.lend_Ok [OF lend] show ?thesis
    by (auto simp: first_hits_def)
qed

theorem query_hits_witness:
  "\<exists>cs rows c c'. search (mute_net reply_table) ''hansa'' [0, 0] (oversample 5) c = Some (Ok (cs, rows), c') \<and>
     [sample_hit] = take (max 1 (unat (5 :: u32)))
       (List.map_filter (accepted sample_codecs meta_shareable) (zip cs rows))"
  using query_hits [OF sample_query] by (simp add: sample_tenant_def)

text \<open>
  C1: nothing leaks past the filter: every hit is the payload of an envelope that the
  filter accepted under the hit's own record id, with the envelope's flag and tags; and there
  are never more hits than asked for, except one when none was.
\<close>

theorem query_no_leak:
  assumes "query_filtered ext L (now, now + d) t emb top_k accept = Some (Ok hits, t')"
  shows "length hits \<le> max 1 (unat top_k) \<and>
    (\<forall>h \<in> set hits. \<exists>b env. decode ext b = Ok env \<and> hit_payload h = payload env \<and>
       accept \<lparr>meta_id = hit_id h, meta_shareable = shareable env, meta_tags = tags env\<rparr>)"
proof -
  obtain cs rows w where out: "assemble ext (frame_debug L) top_k accept [] cs rows = Ok hits"
    using assms by (auto simp: query_filtered_def res_bind_eq_Ok split: if_splits)
  have hits: "hits = take (max 1 (unat top_k)) (List.map_filter (accepted ext accept) (zip cs rows))"
    using assemble_Ok [OF _ out] by (simp add: first_hits_def)
  then have "set hits \<subseteq> set (List.map_filter (accepted ext accept) (zip cs rows))"
    by (simp add: set_take_subset)
  moreover have "length hits \<le> max 1 (unat top_k)" using hits by simp
  ultimately show ?thesis
    by (fastforce simp: map_filter_def accepted_def split: frame.splits sum.splits if_splits)
qed

theorem query_no_leak_witness: "length [sample_hit] \<le> max 1 (unat (5 :: u32))"
  using query_no_leak [OF sample_query] by blast

text \<open>
  C26: a query succeeds whenever the search does and every row is an envelope that decodes,
  or a null for a record without one: missing envelopes are skipped, and no other row stands
  in the way.
\<close>

theorem query_succeeds:
  assumes "of_nat (length emb) = embedding_dim t"
    and "with_conn L tm (search L (index_name t) emb (oversample top_k)) (source t) = Some (Ok (cs, rows), w)"
    and "\<forall>row \<in> set rows. row = Null \<or> (\<exists>b env. row = Bulk b \<and> decode ext b = Ok env)"
  shows "query_filtered ext L tm t emb top_k accept =
    Some (Ok (take (max 1 (unat top_k)) (List.map_filter (accepted ext accept) (zip cs rows))),
      t\<lparr>source := w\<rparr>)"
  using query_readable [OF assms(1,2)] assms(3) by (simp add: readable_def first_hits_def)

theorem query_succeeds_witness:
  "query_filtered sample_codecs (mute_net reply_table) (0, 1) sample_tenant [0, 0] 0 meta_shareable =
     Some (Ok (take (max 1 (unat (0 :: u32)))
         (List.map_filter (accepted sample_codecs meta_shareable) (zip sample_candidates sample_rows))),
       sample_tenant\<lparr>source := Owned (talk [])\<rparr>)"
proof (rule query_succeeds)
  show "\<forall>row \<in> set sample_rows. row = Null \<or> (\<exists>b env. row = Bulk b \<and> decode sample_codecs b = Ok env)"
    using sample_decode by (auto simp: sample_rows_def)
qed (simp_all add: sample_tenant_def sample_search)

text \<open>
  C14: a borrowing operation leaves the pool's counter as it found it, whatever happens, and
  the idle queue in order; and after an error the connection it ran on is not in the queue,
  which then holds nothing that was not there before.
\<close>

theorem pooled_operation:
  assumes "with_pooled L (t1, t2) f p = Some (r, p')"
    and "queue_ok (config p) t1 (pstate p)" and "t1 \<le> t2"
  shows "config p' = config p \<and> queue_ok (config p) t2 (pstate p') \<and>
    in_use (pstate p') = in_use (pstate p) \<and>
    (is_err r \<longrightarrow> set (idle (pstate p')) \<subseteq> set (idle (pstate p)))"
  by (rule with_pooled_pool [OF assms])

theorem pooled_operation_witness:
  "\<exists>p'. with_pooled (mute_net reply_table) (1, 2) (vindex_info (mute_net reply_table) ''hansa'')
       (sample_pool [4]) = Some (Err (Remote [Disp ''ERR'']), p') \<and> in_use (pstate p') = 0 \<and>
     set (idle (pstate p')) \<subseteq> set (idle (pstate (sample_pool [4])))"
proof -
  have "vindex_info (mute_net reply_table) ''hansa'' (talk [4]) = Some (Err (Remote [Disp ''ERR'']), talk [])"
    by (simp add: vindex_info_def op_bind_def mute_call reply_table_def reply_result_def)
  then have "with_pooled (mute_net reply_table) (1, 2) (vindex_info (mute_net reply_table) ''hansa'') (sample_pool [4]) =
      Some (Err (Remote [Disp ''ERR'']), (sample_pool [4])\<lparr>pstate := \<lparr>idle = [], in_use = 0\<rparr>\<rparr>)"
    by (simp add: with_pooled_def op_bind_def acquire_def sample_pool_def try_acquire_def
        default_config_def conn_mut_def after_use_def drop_guard_def discard_def leave_def)
  with pooled_operation [OF this] show ?thesis
    by (auto simp: sample_pool_def queue_ok_def default_config_def)
qed

text \<open>
  The number of candidates asked for is four times \<open>top_k\<close>, at least 64, and stays at the
  largest \<open>u32\<close> instead of wrapping around.
\<close>

lemma oversample_bounds:
  "unat (oversample top_k) = max 64 (min (4 * unat top_k) 4294967295)"
proof -
  have "unat (saturating_mul top_k OVERSAMPLE) = min (4 * unat top_k) 4294967295"
    by (auto simp: saturating_mul_def OVERSAMPLE_def unat_word_ariths min_def)
  then show ?thesis by (auto simp: oversample_def MIN_CANDIDATES_def max_def word_le_nat_alt)
qed

lemma parse_vsearch_bad:
  assumes "list_all2 pair_frames cs ps" and "even (length rest)"
  shows "bad_id L f e \<Longrightarrow> parse_vsearch L (Array (flat_pairs ps @ f # g # rest)) = Err e"
    and "id_frame i f \<Longrightarrow> bad_score L g e \<Longrightarrow>
      parse_vsearch L (Array (flat_pairs ps @ f # g # rest)) = Err e"
  using assms(2) unfolding parse_vsearch_def
  by (simp_all add: parse_pairs_after [OF assms(1)] length_flat_pairs parse_bad_id parse_id_frame parse_bad_score)

lemma parse_vsearch_shape:
  "odd (length fs) \<Longrightarrow> parse_vsearch L (Array fs) =
     Err (Protocol [Lit ''VSEARCH returned odd-length array: '', Disp (show_nat (length fs))])"
  "\<forall>fs. f \<noteq> Array fs \<Longrightarrow> parse_vsearch L f =
     Err (Protocol [Lit ''VSEARCH reply not Array: '', Dbg (frame_debug L f)])"
  by (auto simp: parse_vsearch_def odd_iff_mod_2_eq_one split: frame.splits)

lemma scores_rounded:
  "f64_finite w \<Longrightarrow> \<exists>b. rounds_to (f64_value w) b \<and> parse_score L (Double w) = Ok (with_sign (negative64 w) b)"
  "decimal_ok sg ip fp ex \<Longrightarrow> \<exists>b. rounds_to (decimal_value ip fp ex) b \<and>
     parse_score L (Bulk (as_bytes (decimal_text sg ip fp ex))) = Ok (with_sign (sg = ''-'') b)"
  using f64_to_f32_rounds [of w] parse_f32_rounds [of sg ip fp ex] decimal_text_ascii [of sg ip fp ex]
  by (auto simp: parse_score_def)



text \<open>
  C27: the index list is read back: from the rows a server prints for a table of indexes,
  the entry of the wanted index is returned, the first one if there are several, and an index
  that is not there is reported by its name.
\<close>

theorem vindex_lookup:
  assumes "\<forall>e \<in> set table. plain_name (fst e)"
    and "call L ''SKEG.VINDEX.LIST'' [] c =
      Some (Ok (Array (map (\<lambda>e. Bulk (as_bytes (render_row e))) table)), c')"
  shows "vindex_info L index c = Some (case map_of table index of
      Some r \<Rightarrow> Ok r
    | None \<Rightarrow> Err (Protocol [Lit (''index '' @ quote), Disp index, Lit (quote @ '' not found on remote'')]),
    c')"
  using find_index_table [OF assms(1), of index]
  by (simp add: vindex_info_def op_bind_step(1) [of "call L ''SKEG.VINDEX.LIST'' []", OF assms(2)] split: option.split)

theorem vindex_lookup_witness:
  "vindex_info (mute_net [(1, Array [Bulk (as_bytes (render_row (''hansa'', 4, 9)))])]) ''hansa'' (talk [1]) =
     Some (Ok (4, 9), talk [])"
  by (subst vindex_lookup [where table = "[(''hansa'', 4, 9)]" and c' = "talk []"])
    (simp_all add: plain_name_def mute_call reply_result_def)

end
