(* ===== verification/Writer.thy ===== *)
theory Writer
  imports Tenant
begin

text \<open>
  The owner-side writer (\<open>writer.rs\<close>): creating the index, dropping it, and inserting a
  record as a vector and an envelope. The lemmas show which requests an insert makes, in
  which order, and when it succeeds.
\<close>

section \<open>The code\<close>

record ('d, 's) writer =
  wconn :: "('d, 's) connection"
  windex :: string
  wdim :: u32

definition writer_ensure ::
  "('d, 's) net \<Rightarrow> ('d, 's) connection \<Rightarrow> u32 \<Rightarrow> string \<Rightarrow> (net_error + ('d, 's) writer) option"
where
  "writer_ensure L c dim index =
     map_option (\<lambda>(reply, c).
       case reply of
         Ok _ \<Rightarrow> Ok \<lparr>wconn = c, windex = index, wdim = dim\<rparr>
       | Err (Remote _) \<Rightarrow> Ok \<lparr>wconn = c, windex = index, wdim = dim\<rparr>
       | Err e \<Rightarrow> Err e)
     (call L ''SKEG.VINDEX.CREATE''
        [as_bytes index, as_bytes (show_u32 dim), as_bytes ''f32'', as_bytes ''flat''] c)"

definition writer_embedding_dim :: "('d, 's) writer \<Rightarrow> u32" where
  "writer_embedding_dim w = wdim w"

text \<open>A call on the writer's own connection.\<close>

definition writer_call :: "('d, 's) net \<Rightarrow> string \<Rightarrow> bytes list \<Rightarrow> (('d, 's) writer, frame) op" where
  "writer_call L cmd args w = map_option (\<lambda>(r, c). (r, w\<lparr>wconn := c\<rparr>)) (call L cmd args (wconn w))"

definition drop_index :: "('d, 's) net \<Rightarrow> (('d, 's) writer, unit) op" where
  "drop_index L w =
     op_bind (writer_call L ''SKEG.VINDEX.DROP'' [as_bytes (windex w)]) (\<lambda>_. op_ok ()) w"

text \<open>The check of a reply that follows each of the two calls of \<open>insert\<close>.\<close>

definition refuse_error :: "frame \<Rightarrow> net_error + unit" where
  "refuse_error r = (case r of Error e \<Rightarrow> Err (Remote [Disp e]) | _ \<Rightarrow> Ok ())"

definition insert ::
  "codecs \<Rightarrow> ('d, 's) net \<Rightarrow> u64 \<Rightarrow> u32 list \<Rightarrow> bool \<Rightarrow> string list \<Rightarrow> bytes \<Rightarrow> (('d, 's) writer, unit) op"
where
  "insert ext L record_id emb sh ts p w =
     (if of_nat (length emb) \<noteq> wdim w
      then Some (Err (Protocol [Lit ''vector dim mismatch: writer '', Disp (show_u32 (wdim w)),
        Lit '', got '', Disp (show_nat (length emb))]), w)
      else
        op_bind (writer_call L ''SKEG.VSET''
            [as_bytes (windex w), as_bytes (show_u64 record_id), encode_vector emb]) (\<lambda>r.
        op_bind (op_lift (refuse_error r)) (\<lambda>_.
        let env = envelope_new sh ts p; key = envelope_key_for record_id in
        op_bind (writer_call L ''SET'' [as_bytes key, encode_binary ext env]) (\<lambda>r.
        op_lift (refuse_error r)))) w)"

definition into_connection :: "('d, 's) writer \<Rightarrow> ('d, 's) connection" where
  "into_connection w = wconn w"

text \<open>The trait's operations delegate.\<close>

definition tenant_write_insert ::
  "codecs \<Rightarrow> ('d, 's) net \<Rightarrow> u64 \<Rightarrow> u32 list \<Rightarrow> bool \<Rightarrow> string list \<Rightarrow> bytes \<Rightarrow> (('d, 's) writer, unit) op"
where
  "tenant_write_insert = insert"

section \<open>Lemmas\<close>

text \<open>A call never returns an error frame as a success, so the checks after it never fire.\<close>

lemma call_no_error: "call L cmd args c = Some (Ok f, c') \<Longrightarrow> refuse_error f = Ok ()"
proof -
  assume "call L cmd args c = Some (Ok f, c')"
  then obtain g where "(case g of Error e \<Rightarrow> Err (Remote [Disp e]) | _ \<Rightarrow> Ok g) = Ok f"
    unfolding call_def op_bind_eq_Some by auto
  then show ?thesis by (cases g) (auto simp: refuse_error_def)
qed

lemma remote_swallowed:
  "(case r of Ok _ \<Rightarrow> Ok w | Err (Remote _) \<Rightarrow> Ok w | Err e \<Rightarrow> Err e) = Ok w' \<longleftrightarrow>
     w' = w \<and> ((\<exists>f. r = Ok f) \<or> (\<exists>m. r = Err (Remote m)))"
proof (cases r)
  case (Inl e)
  then show ?thesis by (cases e) auto
qed auto

lemma writer_call_eq_Some:
  "writer_call L cmd args w = Some (r, w') \<longleftrightarrow>
     (\<exists>c'. call L cmd args (wconn w) = Some (r, c') \<and> w' = w\<lparr>wconn := c'\<rparr>)"
  by (auto simp: writer_call_def)

lemma insert_Ok:
  "insert ext L i emb sh ts p w = Some (Ok (), w') \<longleftrightarrow>
     of_nat (length emb) = wdim w \<and>
     (\<exists>r1 c1 r2 c2.
        call L ''SKEG.VSET'' [as_bytes (windex w), as_bytes (show_u64 i), encode_vector emb] (wconn w) =
          Some (Ok r1, c1) \<and>
        call L ''SET'' [as_bytes (envelope_key_for i), encode_binary ext (envelope_new sh ts p)] c1 =
          Some (Ok r2, c2) \<and>
        w' = w\<lparr>wconn := c2\<rparr>)"
  by (auto simp: insert_def op_bind_eq_Some writer_call_eq_Some Let_def call_no_error dest: call_no_error)

text \<open>
  An insert succeeds exactly when the vector has the index's dimension, the vector's
  \<open>SKEG.VSET\<close> is answered without an error, and then the \<open>SET\<close> of the binary envelope under
  the record's key is; no other request is made.
\<close>

lemma insert_requests:
  "(\<exists>w'. insert ext L i emb sh ts p w = Some (Ok (), w') \<and> wconn w' = c2) \<longleftrightarrow>
     of_nat (length emb) = wdim w \<and>
     (\<exists>r1 c1 r2.
        call L ''SKEG.VSET'' [as_bytes (windex w), as_bytes (show_u64 i), encode_vector emb] (wconn w) =
          Some (Ok r1, c1) \<and>
        call L ''SET'' [as_bytes (envelope_key_for i), encode_binary ext (envelope_new sh ts p)] c1 =
          Some (Ok r2, c2))"
  unfolding insert_Ok by auto

text \<open>
  Making sure of an index succeeds on every answer of the server, whatever error it reports,
  and fails only when the request could not be sent or its answer not be read.
\<close>

lemma ensure_accepts_any_refusal:
  "writer_ensure L c dim index = Some (Ok w) \<longleftrightarrow>
     (\<exists>r c'. call L ''SKEG.VINDEX.CREATE''
         [as_bytes index, as_bytes (show_u32 dim), as_bytes ''f32'', as_bytes ''flat''] c = Some (r, c') \<and>
       ((\<exists>f. r = Ok f) \<or> (\<exists>m. r = Err (Remote m))) \<and>
       w = \<lparr>wconn = c', windex = index, wdim = dim\<rparr>)"
  by (auto simp: writer_ensure_def remote_swallowed)

end
