(* ===== verification/WriterProps.thy ===== *)
theory WriterProps
  imports Writer ConnectionProps
begin

text \<open>
  The writer on the wire: what becomes of the server's answer when an index is made sure of.
\<close>

text \<open>
  C38: on a connection in step, a writer is made whatever the server answers to the creation
  of its index: an index, or any error, be it about an index that exists, a limit or an unknown
  command. The connection stays in step, and the writer has the name and the dimension it was
  asked for. Only a failure of the connection itself (an error in sending, a time out) makes
  none.
\<close>

theorem ensure_accepts_any_answer:
  assumes "codec_law L valid pending" and "valid f" and "pending (decoder c) = []"
    and "write_all L (encode_frame L (request ''SKEG.VINDEX.CREATE''
      [as_bytes index, as_bytes (show_u32 dim), as_bytes ''f32'', as_bytes ''flat''])) (stream c) = (Ok (), s)"
  shows "(\<forall>chunks s'. delivers L s chunks s' \<longrightarrow> concat chunks = encode_frame L f \<longrightarrow>
      (\<exists>d. pending d = [] \<and> writer_ensure L c dim index =
        Some (Ok \<lparr>wconn = \<lparr>stream = s', decoder = d\<rparr>, windex = index, wdim = dim\<rparr>))) \<and>
    (\<forall>e s'. encode_frame L f \<noteq> [] \<longrightarrow> tcp_read L 8192 s = (Err e, s') \<longrightarrow>
      writer_ensure L c dim index = Some (Err (Io e)))"
proof (intro conjI allI impI)
  fix chunks s'
  assume "delivers L s chunks s'" and "concat chunks = encode_frame L f"
  from call_in_step [OF assms this]
  show "\<exists>d. pending d = [] \<and> writer_ensure L c dim index =
      Some (Ok \<lparr>wconn = \<lparr>stream = s', decoder = d\<rparr>, windex = index, wdim = dim\<rparr>)"
    by (auto simp: writer_ensure_def reply_result_def split: frame.split)
next
  fix e s'
  assume "encode_frame L f \<noteq> []" and "tcp_read L 8192 s = (Err e, s')"
  from call_times_out [OF assms(1-3) this(1) assms(4) this(2)]
  show "writer_ensure L c dim index = Some (Err (Io e))" by (auto simp: writer_ensure_def)
qed

text \<open>A server that does not know the command, and a writer all the same.\<close>

definition refusing_net :: "(bytes, script) net" where
  "refusing_net = table_net [(1, Error ''ERR unknown command'')] (chunked [])"

theorem ensure_accepts_any_answer_witness:
  "\<exists>w. writer_ensure refusing_net \<lparr>stream = chunked [Ok [36, 1]], decoder = []\<rparr> 4 ''hansa'' = Some (Ok w) \<and>
     windex w = ''hansa'' \<and> wdim w = 4"
proof -
  let ?s = "\<lparr>sent = [33], script_reads = [Ok [36, 1]]\<rparr>"
  let ?c = "\<lparr>stream = chunked [Ok [36, 1]], decoder = []\<rparr>"
  have law: "codec_law refusing_net (\<lambda>f. f \<in> {Error ''ERR unknown command''}) id"
    using table_net_law [of "[(1, Error ''ERR unknown command'')]" "chunked []"] by (simp add: refusing_net_def)
  have w: "write_all refusing_net (encode_frame refusing_net (request cmd args)) (chunked [Ok [36, 1]]) = (Ok (), ?s)"
    for cmd args by (simp add: refusing_net_def table_net_def chunked_def request_def)
  have "delivers refusing_net ?s [[36, 1]] \<lparr>sent = [33], script_reads = []\<rparr>"
    by (auto intro!: delivers.chunk simp: refusing_net_def table_net_def)
  moreover have "concat [[36, 1]] = encode_frame refusing_net (Error ''ERR unknown command'')"
    by (simp add: refusing_net_def table_net_def)
  moreover have "\<forall>chunks s'. delivers refusing_net ?s chunks s' \<longrightarrow>
      concat chunks = encode_frame refusing_net (Error ''ERR unknown command'') \<longrightarrow>
      (\<exists>d. id d = [] \<and> writer_ensure refusing_net ?c 4 ''hansa'' =
        Some (Ok \<lparr>wconn = \<lparr>stream = s', decoder = d\<rparr>, windex = ''hansa'', wdim = 4\<rparr>))"
    by (rule conjunct1 [OF ensure_accepts_any_answer [OF law, where c = ?c and s = ?s]]) (simp_all add: w)
  ultimately show ?thesis by (metis writer.select_convs(2,3))
qed

end
