(* ===== verification/PoolProgress.thy ===== *)
theory PoolProgress
  imports PoolSteps
begin

text \<open>
  What becomes of the callers of a pool when no more of them arrive: each is served. The
  theory shows that the threads can always go on as long as a call has not ended, and that
  they cannot go on for ever.
\<close>

text \<open>
  A step of the calls there are, some time later: no new call, no wake up without a
  notification (the condition variable may do that, but need not), and some call gets further.
\<close>

definition busy_step :: "pool_config \<Rightarrow> 'c threads \<Rightarrow> 'c threads \<Rightarrow> bool" where
  "busy_step cfg s t \<longleftrightarrow>
     (\<exists>d. pool_step cfg (s\<lparr>clock := clock s + d\<rparr>) t) \<and> set (calls t) \<subseteq> set (calls s) \<and>
     (length (woken s) < length (woken t) \<longrightarrow> length (calls t) < length (calls s)) \<and>
     (connecting t, parked t, woken t, guards t) \<noteq> (connecting s, parked s, woken s, guards s)"

lemma busy_reachable:
  "busy_step cfg s t \<Longrightarrow> reachable s0 (pool_step cfg) s \<Longrightarrow> reachable s0 (pool_step cfg) t"
  unfolding busy_step_def by (metis reachable_step pool_step.later)

lemma busy_run_reachable:
  "reachable s (busy_step cfg) t \<Longrightarrow> reachable s0 (pool_step cfg) s \<Longrightarrow> reachable s0 (pool_step cfg) t"
  by (induction rule: reachable.induct) (auto intro: busy_reachable)

section \<open>The calls come to an end\<close>

text \<open>How far the calls are from their end: their number, who has yet to look, who has yet to connect.\<close>

definition distance :: "'c threads \<Rightarrow> nat \<times> nat \<times> nat" where
  "distance s = (length (calls s), length (woken s), length (connecting s))"

definition closer :: "((nat \<times> nat \<times> nat) \<times> nat \<times> nat \<times> nat) set" where
  "closer = less_than <*lex*> less_than <*lex*> less_than"

lemma wf_closer: "wf closer"
  by (simp add: closer_def wf_lex_prod)

lemma enter_lists:
  "length (calls (enter i r s)) = Suc (length (calls s))" "woken (enter i r s) = woken s"
  by (cases r; simp add: calls_def)+

lemma notify_one_length: "notify_one p w p' w' \<Longrightarrow> length p' + length w' = length p + length w"
  by (auto elim: notify_oneE)

lemma step_closer:
  "pool_step cfg s t \<Longrightarrow> distinct (calls s) \<Longrightarrow> set (calls t) \<subseteq> set (calls s) \<Longrightarrow>
   (length (woken s) < length (woken t) \<longrightarrow> length (calls t) < length (calls s)) \<Longrightarrow>
   (connecting t, parked t, woken t, guards t) \<noteq> (connecting s, parked s, woken s, guards s) \<Longrightarrow>
   (distance t, distance s) \<in> closer"
proof (induction rule: pool_step.induct)
  case (call i s r st)
  then show ?case by (cases r) (auto simp: calls_def)
next
  case (resume s a i b r st)
  then have "length (calls (enter i r (s\<lparr>woken := a @ b, shared := st\<rparr>))) = length (calls s)"
    by (simp add: enter_lists) (simp add: calls_def)
  then show ?case using resume by (simp add: distance_def closer_def enter_lists)
next
  case (connected s a i b c)
  then show ?case by (simp add: distance_def closer_def calls_def)
next
  case (refused s a i b st p w)
  then show ?case using notify_one_length [OF refused(3)] by (simp add: distance_def closer_def calls_def)
next
  case (released s a i c b st p w)
  then show ?case using notify_one_length [OF released(3)] by (simp add: distance_def closer_def calls_def)
next
  case (discarded s a i c b st p w)
  then show ?case using notify_one_length [OF discarded(3)] by (simp add: distance_def closer_def calls_def)
qed (simp_all add: calls_def)

lemma busy_closer:
  assumes "busy_step cfg s t" and "distinct (calls s)"
  shows "(distance t, distance s) \<in> closer"
proof -
  obtain d where "pool_step cfg (s\<lparr>clock := clock s + d\<rparr>) t" using assms(1) by (auto simp: busy_step_def)
  from step_closer [OF this] assms show ?thesis by (simp add: busy_step_def calls_def distance_def)
qed

section \<open>They can always go on\<close>

lemma busy_exists:
  assumes inv: "pool_inv cfg s" and "calls s \<noteq> []" and "0 < max_total cfg"
  shows "\<exists>t. busy_step cfg s t"
proof -
  have same: "s\<lparr>clock := clock s + 0\<rparr> = s" by simp
  have go: ?thesis if "pool_step cfg s t" "set (calls t) \<subseteq> set (calls s)"
      "length (woken s) < length (woken t) \<Longrightarrow> length (calls t) < length (calls s)"
      "(connecting t, parked t, woken t, guards t) \<noteq> (connecting s, parked s, woken s, guards s)" for t
    using that same unfolding busy_step_def by metis
  have notified: "\<exists>p w. notify_one (parked s) (woken s) p w"
    using notify_one.nobody notify_one.somebody [of "[]", simplified] by (cases "parked s") metis+
  then obtain p w where n: "notify_one (parked s) (woken s) p w" by blast
  have pw: "set (p @ w) = set (parked s @ woken s)" "length p + length w = length (parked s) + length (woken s)"
    using notify_one_props(1) [OF n] notify_one_length [OF n] mset_eq_setD by blast+
  have "parked s \<noteq> [] \<Longrightarrow> woken s \<noteq> [] \<or> connecting s \<noteq> [] \<or> guards s \<noteq> []"
    using inv assms(3) by (auto simp: pool_inv_def no_lost_wakeup_def counted_def)
  with assms(2) consider i b where "woken s = i # b" | i b where "connecting s = i # b"
    | i c b where "guards s = (i, c) # b"
    by (cases "woken s"; cases "connecting s"; cases "guards s") (auto simp: calls_def)
  then show ?thesis
  proof cases
    case (1 i b)
    obtain r st where "try_acquire (clock s) cfg (shared s) = (r, st)" by fastforce
    from pool_step.resume [of s "[]" i b, OF _ this] 1
    have "pool_step cfg s (enter i r (s\<lparr>woken := b, shared := st\<rparr>))" by simp
    from go [OF this] 1 show ?thesis by (cases r) (auto simp: calls_def)
  next
    case (2 i b)
    then have "connect_failed (shared s) = Some ((shared s)\<lparr>in_use := in_use (shared s) - 1\<rparr>)"
      using inv by (simp add: connect_failed_def pool_inv_def counted_def)
    from pool_step.refused [of s "[]" i b, OF _ this n] 2 show ?thesis
      using pw by (intro go) (auto simp: calls_def)
  next
    case (3 i c b)
    then have "drop_guard (clock s) cfg (discard \<lparr>conn = Some c\<rparr>) (shared s) =
        Some ((shared s)\<lparr>in_use := in_use (shared s) - 1\<rparr>)"
      using inv by (simp add: drop_guard_def discard_def leave_def pool_inv_def counted_def)
    from pool_step.discarded [of s "[]" i c b, OF _ this n] 3 show ?thesis
      using pw by (intro go) (auto simp: calls_def)
  qed
qed

section \<open>What callers can rely on\<close>

text \<open>
  C9: every caller is served. From any state the threads can be in, when no new calls arrive,
  there is no endless run, spurious wake-ups aside; and where the threads cannot go on, every
  call has ended (its guard was dropped, or its connect failed) and the pool lends nothing.
\<close>

theorem pool_drains:
  assumes "reachable (pool_start cfg t0) (pool_step cfg) s" and "0 < max_total cfg"
  shows "(\<nexists>run. run 0 = s \<and> (\<forall>n. busy_step cfg (run n) (run (Suc n)))) \<and>
    (\<forall>t. reachable s (busy_step cfg) t \<longrightarrow> (\<nexists>u. busy_step cfg t u) \<longrightarrow>
       calls t = [] \<and> in_use (shared t) = 0)"
proof (intro conjI allI impI notI)
  assume "\<exists>run. run 0 = s \<and> (\<forall>n. busy_step cfg (run n) (run (Suc n)))"
  then obtain run where run: "run 0 = s" "\<And>n. busy_step cfg (run n) (run (Suc n))" by blast
  have "reachable (pool_start cfg t0) (pool_step cfg) (run n)" for n
    by (induction n) (auto simp: run(1) assms(1) intro: busy_reachable [OF run(2)])
  then have "(distance (run (Suc n)), distance (run n)) \<in> closer" for n
    using busy_closer [OF run(2)] reachable_parts(4) by blast
  then have "\<exists>f. \<forall>n. (f (Suc n), f n) \<in> closer" by (intro exI [of _ "\<lambda>n. distance (run n)"]) simp
  then show False using wf_closer by (simp add: wf_iff_no_infinite_down_chain)
next
  fix t
  assume t: "reachable s (busy_step cfg) t" "\<nexists>u. busy_step cfg t u"
  have inv: "pool_inv cfg t"
    using pool_threads.reachable_inv [OF busy_run_reachable [OF t(1) assms(1)]] .
  with busy_exists [OF inv _ assms(2)] t(2) show "calls t = []" by blast
  with inv show "in_use (shared t) = 0" by (simp add: pool_inv_def counted_def calls_def)
qed

theorem pool_drains_witness:
  "\<nexists>run. run 0 = waiting_pool \<and> (\<forall>n. busy_step one_config (run n) (run (Suc n)))"
  using pool_drains [OF waiting_pool_reachable] by (simp add: one_config_def)

end
