(* ===== verification/PoolSessions.thy ===== *)
theory PoolSessions
  imports PoolRefine TenantProps
begin

text \<open>
  Threads that talk to a server over one pool. \<open>PoolSteps\<close> says who holds which socket; this
  theory adds the connection behind each socket and what \<open>with_conn\<close> does with it: one of the
  tenant's operations runs on the borrowed connection, and its result decides whether the
  connection goes back to the pool or is discarded. A connection may fail in the middle of a
  reply. The theorem is that no reply is ever taken for another: whatever the interleaving and
  whatever failed before, a connection that is idle or just lent is in step with the server.
\<close>

section \<open>A server that may fail\<close>

text \<open>
  A socket that is going to deliver some bytes, in chunks, or to report an error (a time out
  included) or its end before all of them; when all are delivered it is quiet.
\<close>

inductive sends :: "('d, 's) net \<Rightarrow> ('s \<Rightarrow> bool) \<Rightarrow> 's \<Rightarrow> bytes \<Rightarrow> bool" for L quiet where
  all_sent: "quiet s \<Longrightarrow> sends L quiet s []"
| breaks: "tcp_read L 8192 s = (Err e, s1) \<Longrightarrow> b \<noteq> [] \<Longrightarrow> sends L quiet s b"
| closes: "tcp_read L 8192 s = (Ok [], s1) \<Longrightarrow> b \<noteq> [] \<Longrightarrow> sends L quiet s b"
| partly: "tcp_read L 8192 s = (Ok p, s1) \<Longrightarrow> p \<noteq> [] \<Longrightarrow> sends L quiet s1 b \<Longrightarrow>
    sends L quiet s (p @ b)"

text \<open>The frame \<open>f\<close> is what comes back for a request written to the socket \<open>s\<close>.\<close>

definition reply_to ::
  "('d, 's) net \<Rightarrow> ('s \<Rightarrow> bool) \<Rightarrow> frame \<Rightarrow> 's \<Rightarrow> frame \<Rightarrow> bool"
where
  "reply_to L quiet req s f \<longleftrightarrow>
     (\<exists>s1. write_all L (encode_frame L req) s = (Ok (), s1) \<and> sends L quiet s1 (encode_frame L f))"

text \<open>
  A server answers a request on a quiet socket with one frame, if the connection lives that
  long. A new socket is quiet once its options are set.
\<close>

definition answering :: "('d, 's) net \<Rightarrow> (frame \<Rightarrow> bool) \<Rightarrow> ('s \<Rightarrow> bool) \<Rightarrow> bool" where
  "answering L valid quiet \<longleftrightarrow>
     (\<forall>req s s1. quiet s \<longrightarrow> write_all L (encode_frame L req) s = (Ok (), s1) \<longrightarrow>
        (\<exists>f. valid f \<and> sends L quiet s1 (encode_frame L f)))"

definition opens_quiet :: "('d, 's) net \<Rightarrow> ('s \<Rightarrow> bool) \<Rightarrow> ('s \<Rightarrow> bool) \<Rightarrow> bool" where
  "opens_quiet L fresh quiet \<longleftrightarrow>
     (\<forall>s s1 s2 s3. fresh s \<longrightarrow> set_read_timeout L 5 s = Ok s1 \<longrightarrow> set_write_timeout L 5 s1 = Ok s2 \<longrightarrow>
        set_nodelay L True s2 = Ok s3 \<longrightarrow> quiet s3)"

lemma recv_sends:
  assumes law: "codec_law L valid pending" "valid f"
  shows "sends L quiet s b \<Longrightarrow> stream c = s \<Longrightarrow> pending (decoder c) @ b = encode_frame L f \<Longrightarrow>
    \<exists>r c'. recv L c = Some (r, c') \<and> (\<forall>g. r = Ok g \<longrightarrow> g = f \<and> ready pending quiet c') \<and>
      (\<forall>m. r \<noteq> Err (Remote m))"
proof (induction arbitrary: c rule: sends.induct)
  case (all_sent s)
  then obtain d where "dec_decode L (decoder c) = (Ok (Some f), d)" "pending d = []"
    using codec_lawD(3) [OF law, of "decoder c" "[]"] by auto
  then show ?case using all_sent recv_ready by (fastforce simp: ready_def)
next
  case (breaks s e s1 b)
  then obtain d where "dec_decode L (decoder c) = (Ok None, d)"
    using codec_lawD(4) [OF law, of "decoder c"] by (metis append_self_conv prefix_order.less_le prefixI)
  with breaks show ?case by (subst recv.simps) simp
next
  case (closes s s1 b)
  then obtain d where "dec_decode L (decoder c) = (Ok None, d)"
    using codec_lawD(4) [OF law, of "decoder c"] by (metis append_self_conv prefix_order.less_le prefixI)
  with closes show ?case by (subst recv.simps) simp
next
  case (partly s p s1 b)
  then obtain d where d: "dec_decode L (decoder c) = (Ok None, d)" "pending d = pending (decoder c)"
    using codec_lawD(4) [OF law, of "decoder c"]
    by (metis append_is_Nil_conv append_self_conv prefix_order.less_le prefixI)
  from partly.IH [of "c\<lparr>stream := s1, decoder := dec_feed L p d\<rparr>"] show ?case
    using recv_more [OF d(1) _ partly(2), of s1] partly d(2) codec_lawD(2) [OF law(1)] by simp
qed

section \<open>Operations that keep a connection in step\<close>

text \<open>
  Run on a connection that satisfies \<open>P\<close>, the operation returns, and if it succeeds the
  connection satisfies \<open>P\<close> again.
\<close>

definition keeps :: "('c \<Rightarrow> bool) \<Rightarrow> ('c, 'a) op \<Rightarrow> bool" where
  "keeps P f \<longleftrightarrow> (\<forall>c. P c \<longrightarrow> (\<exists>r c'. f c = Some (r, c') \<and> (\<forall>x. r = Ok x \<longrightarrow> P c')))"

lemma keepsD: "keeps P f \<Longrightarrow> P c \<Longrightarrow> f c = Some (Ok x, c') \<Longrightarrow> P c'"
  by (fastforce simp: keeps_def)

lemma keeps_pure: "keeps P (op_ok x)" "keeps P (op_lift r)"
  by (simp_all add: keeps_def)

lemma keeps_if: "(b \<Longrightarrow> keeps P f) \<Longrightarrow> (\<not> b \<Longrightarrow> keeps P g) \<Longrightarrow> keeps P (if b then f else g)"
  by simp

lemma keeps_bind:
  assumes "keeps P m" and k: "\<And>x. keeps P (k x)"
  shows "keeps P (op_bind m k)"
  unfolding keeps_def
proof (intro allI impI)
  fix c
  assume "P c"
  with assms(1) obtain r c' where m: "m c = Some (r, c')" "\<forall>x. r = Ok x \<longrightarrow> P c'"
    unfolding keeps_def by blast
  then show "\<exists>r c'. op_bind m k c = Some (r, c') \<and> (\<forall>x. r = Ok x \<longrightarrow> P c')"
    using k by (cases r) (auto simp: op_bind_step keeps_def)
qed

lemmas keeps_intros = keeps_pure keeps_if keeps_bind

lemma call_ready:
  assumes law: "codec_law L valid pending" "answering L valid quiet" and c: "ready pending quiet c"
  shows "\<exists>r c'. call L cmd args c = Some (r, c') \<and>
    (\<forall>f. r = Ok f \<longrightarrow> ready pending quiet c' \<and> reply_to L quiet (request cmd args) (stream c) f) \<and>
    (\<forall>m. r = Err (Remote m) \<longrightarrow>
      (\<exists>e. m = [Disp e] \<and> reply_to L quiet (request cmd args) (stream c) (Error e)))"
proof (cases "write_all L (encode_frame L (request cmd args)) (stream c)")
  case (Pair w s)
  show ?thesis
  proof (cases w)
    case (Inl e)
    with Pair show ?thesis by (simp add: call_unfold send_def op_bind_step)
  next
    case (Inr u)
    with Pair have w: "write_all L (encode_frame L (request cmd args)) (stream c) = (Ok (), s)" by simp
    with law(2) c obtain f where f: "valid f" "sends L quiet s (encode_frame L f)"
      unfolding answering_def ready_def by blast
    from recv_sends [OF law(1) f, of "\<lparr>stream = s, decoder = decoder c\<rparr>"] c obtain r c' where
      "recv L \<lparr>stream = s, decoder = decoder c\<rparr> = Some (r, c')"
      "\<forall>g. r = Ok g \<longrightarrow> g = f \<and> ready pending quiet c'" "\<forall>m. r \<noteq> Err (Remote m)" by (auto simp: ready_def)
    with send_ok [OF w] f(2) w show ?thesis
      by (cases r) (auto simp: call_unfold op_bind_step reply_to_def reply_result_def split: frame.split)
  qed
qed

lemma keeps_call:
  "codec_law L valid pending \<Longrightarrow> answering L valid quiet \<Longrightarrow> keeps (ready pending quiet) (call L cmd args)"
  unfolding keeps_def using call_ready by metis

lemma keeps_tenant_ops:
  assumes "codec_law L valid pending" and "answering L valid quiet"
  shows "keeps (ready pending quiet) (vindex_info L index)"
    and "keeps (ready pending quiet) (search L index emb n)"
proof -
  show "keeps (ready pending quiet) (vindex_info L index)"
    unfolding vindex_info_def by (intro keeps_intros keeps_call [OF assms])
  show "keeps (ready pending quiet) (search L index emb n)"
    unfolding search_def by (intro keeps_intros keeps_call [OF assms])
qed

lemma from_stream_ready:
  assumes law: "codec_law L valid pending" "answering L valid quiet" "opens_quiet L fresh quiet"
    and "fresh s" and "from_stream L s au = Some (Ok c)"
  shows "ready pending quiet c"
proof -
  obtain s1 s2 s3 where "set_read_timeout L 5 s = Ok s1" "set_write_timeout L 5 s1 = Ok s2"
      "set_nodelay L True s2 = Ok s3"
    and h: "hello L 3 au \<lparr>stream = s3, decoder = dec_new L\<rparr> = Some (Ok (), c)"
    using assms(5) by (auto simp: from_stream_def res_eqs split: sum.splits option.splits)
  then have "quiet s3" using law(3) assms(4) unfolding opens_quiet_def by blast
  then have c3: "ready pending quiet \<lparr>stream = s3, decoder = dec_new L\<rparr>"
    using codec_lawD(1) [OF law(1)] by (simp add: ready_def)
  from h obtain req s4 g where s4: "write_all L (encode_frame L req) s3 = (Ok (), s4)"
      and g: "recv L \<lparr>stream = s4, decoder = dec_new L\<rparr> = Some (Ok g, c)"
    by (auto simp: hello_def Let_def op_bind_eq_Some send_def split: prod.splits sum.splits)
  obtain f where f: "valid f" "sends L quiet s4 (encode_frame L f)"
    using law(2) \<open>quiet s3\<close> s4 unfolding answering_def by blast
  from recv_sends [OF law(1) f, of "\<lparr>stream = s4, decoder = dec_new L\<rparr>"] codec_lawD(1) [OF law(1)] g
  show ?thesis by simp
qed

section \<open>The threads and their connections\<close>

text \<open>
  The sockets of the threads are numbers, \<open>link\<close> is the connection on a socket, and \<open>outcome\<close>
  the result of the operation a call has run on its connection. The frames the server puts
  in a reply may depend on what other connections did: the state of a socket holds whatever
  is going to happen on it.
\<close>

record ('d, 's, 'r) sessions =
  pool :: "nat threads"
  link :: "nat \<Rightarrow> ('d, 's) connection"
  outcome :: "nat \<Rightarrow> (net_error + 'r) option"

text \<open>
  The operations that \<open>with_conn\<close> is given, and \<open>from_pool\<close> runs: reading the index list and the
  search of a query.
\<close>

datatype answer =
    Listed "u32 \<times> u64"
  | Searched "(u64 \<times> u32) list \<times> frame list"

definition tenant_ops :: "('d, 's) net \<Rightarrow> (('d, 's) connection, answer) op set" where
  "tenant_ops L =
     {op_bind (vindex_info L index) (\<lambda>r. op_ok (Listed r)) | index. True} \<union>
     {op_bind (search L index emb n) (\<lambda>r. op_ok (Searched r)) | index emb n. True}"

text \<open>
  A step is one of: a step of the pool that neither opens nor takes back a connection; a
  connect that succeeds; an operation on a borrowed connection; the end of a call, which
  takes the connection back or discards it as \<open>with_conn\<close> does.
\<close>

inductive session_step ::
  "('d, 's) net \<Rightarrow> (string \<times> string) option \<Rightarrow> pool_config \<Rightarrow> ('s \<Rightarrow> bool) \<Rightarrow>
     (('d, 's) connection, 'r) op set \<Rightarrow> ('d, 's, 'r) sessions \<Rightarrow> ('d, 's, 'r) sessions \<Rightarrow> bool"
for L au cfg fresh ops where
  pass: "pool_step cfg (pool w) t \<Longrightarrow> set (sockets t) \<subseteq> set (sockets (pool w)) \<Longrightarrow>
    set (guards (pool w)) \<subseteq> set (guards t) \<Longrightarrow>
    session_step L au cfg fresh ops w (w\<lparr>pool := t\<rparr>)"
| opened: "connecting (pool w) = a @ i # b \<Longrightarrow> c \<notin> set (sockets (pool w)) \<Longrightarrow> fresh s \<Longrightarrow>
    from_stream L s au = Some (Ok k) \<Longrightarrow>
    session_step L au cfg fresh ops w (w\<lparr>pool := (pool w)\<lparr>connecting := a @ b, guards := (i, c) # guards (pool w)\<rparr>,
      link := (link w)(c := k)\<rparr>)"
| used: "(i, c) \<in> set (guards (pool w)) \<Longrightarrow> outcome w i = None \<Longrightarrow> f \<in> ops \<Longrightarrow>
    f (link w c) = Some (r, k) \<Longrightarrow>
    session_step L au cfg fresh ops w (w\<lparr>link := (link w)(c := k), outcome := (outcome w)(i := Some r)\<rparr>)"
| finished: "guards (pool w) = a @ (i, c) # b \<Longrightarrow> outcome w i = Some r \<Longrightarrow>
    drop_guard (clock (pool w)) cfg (after_use r \<lparr>conn = Some c\<rparr>) (shared (pool w)) = Some st \<Longrightarrow>
    notify_one (parked (pool w)) (woken (pool w)) p u \<Longrightarrow>
    session_step L au cfg fresh ops w
      (w\<lparr>pool := (pool w)\<lparr>shared := st, guards := a @ b, parked := p, woken := u\<rparr>,
         outcome := (outcome w)(i := None)\<rparr>)"

definition session_start ::
  "pool_config \<Rightarrow> nat \<Rightarrow> (nat \<Rightarrow> ('d, 's) connection) \<Rightarrow> ('d, 's, 'r) sessions"
where
  "session_start cfg t0 links = \<lparr>pool = pool_start cfg t0, link = links, outcome = (\<lambda>_. None)\<rparr>"

text \<open>Seen through \<open>pool\<close>, these are steps of the pool's threads or none.\<close>

lemma after_use_cases: "after_use r g = g \<or> after_use r g = discard g"
  by (simp add: after_use_def)

lemma session_step_pool:
  "session_step L au cfg fresh ops w v \<Longrightarrow> pool_step cfg (pool w) (pool v) \<or> pool v = pool w"
proof (induction rule: session_step.induct)
  case (opened w a i b c s k)
  then show ?case using pool_step.connected [of "pool w" a i b c cfg] by simp
next
  case (finished w a i c b r st p u)
  have "pool_step cfg (pool w) ((pool w)\<lparr>shared := st, guards := a @ b, parked := p, woken := u\<rparr>)"
    using after_use_cases [of r "\<lparr>conn = Some c\<rparr>"] finished pool_step.released pool_step.discarded by metis
  then show ?case by simp
qed simp_all

interpretation session_pool:
  simulation "session_start cfg t0" "session_step L au cfg fresh ops" "pool_start cfg t0" "pool_step cfg" pool
  for L au cfg fresh ops t0
  by standard (auto simp: session_start_def dest: session_step_pool)

lemma session_pool_inv:
  assumes "reachable (session_start cfg t0 links) (session_step L au cfg fresh ops) w"
  shows "pool_inv cfg (pool w)"
  using session_pool.reachable_view [OF assms] pool_threads.reachable_inv by blast

section \<open>Every connection in use is in step\<close>

text \<open>The sockets whose connection may be used: the idle ones, and the lent ones that have not failed.\<close>

definition usable :: "('d, 's, 'r) sessions \<Rightarrow> nat set" where
  "usable w = set (map fst (idle (shared (pool w)))) \<union>
     {c. \<exists>i. (i, c) \<in> set (guards (pool w)) \<and> (\<forall>e. outcome w i \<noteq> Some (Err e))}"

text \<open>A socket in use has one user, who uses nothing else, and it is not idle.\<close>

lemma used_by:
  assumes "pool_inv cfg s" and "(i, c) \<in> set (guards s)"
  shows "(j, c) \<in> set (guards s) \<Longrightarrow> j = i" and "(i, c') \<in> set (guards s) \<Longrightarrow> c' = c"
    and "(c, t) \<notin> set (idle (shared s))"
proof -
  have d: "distinct (map fst (guards s))" "distinct (map snd (guards s))"
    "set (map fst (idle (shared s))) \<inter> set (map snd (guards s)) = {}"
    using assms(1) by (simp_all add: pool_inv_def sockets_def calls_def)
  show "(j, c) \<in> set (guards s) \<Longrightarrow> j = i" using d(2) assms(2)
    by (auto simp: distinct_map dest: inj_onD [where x = "(j, c)" and y = "(i, c)"])
  show "(i, c') \<in> set (guards s) \<Longrightarrow> c' = c" using d(1) assms(2)
    by (auto simp: distinct_map dest: inj_onD [where x = "(i, c')" and y = "(i, c)"])
  show "(c, t) \<notin> set (idle (shared s))" using d(3) assms(2) by force
qed

lemma usable_pass:
  assumes inv: "pool_inv cfg t"
    and t: "set (sockets t) \<subseteq> set (sockets (pool w))" "set (guards (pool w)) \<subseteq> set (guards t)"
  shows "usable (w\<lparr>pool := t\<rparr>) \<subseteq> usable w"
proof
  fix c
  assume c: "c \<in> usable (w\<lparr>pool := t\<rparr>)"
  then have "c \<in> set (sockets t)" by (force simp: usable_def sockets_def)
  with t(1) have "c \<in> set (sockets (pool w))" by blast
  then consider "c \<in> set (map fst (idle (shared (pool w))))" | i where "(i, c) \<in> set (guards (pool w))"
    by (auto simp: sockets_def)
  then show "c \<in> usable w"
  proof cases
    case (2 i)
    with t(2) have "(i, c) \<in> set (guards t)" by blast
    from used_by [OF inv this] c have "\<forall>e. outcome w i \<noteq> Some (Err e)"
      by (auto simp: usable_def)
    with 2 show ?thesis by (auto simp: usable_def)
  qed (simp add: usable_def)
qed

lemma usable_used:
  assumes "pool_inv cfg (pool w)" and "(i, c) \<in> set (guards (pool w))"
    and "c' \<in> usable (w\<lparr>link := l, outcome := (outcome w)(i := Some r)\<rparr>)"
  shows "c' \<in> usable w \<and> c' \<noteq> c \<or> c' = c \<and> \<not> is_err r"
  using assms(3) used_by [OF assms(1,2)] by (cases r) (auto simp: usable_def split: if_splits)

lemma usable_finished:
  assumes g: "guards (pool w) = a @ (i, c) # b" "outcome w i = Some r"
    and st: "drop_guard now cfg (after_use r \<lparr>conn = Some c\<rparr>) (shared (pool w)) = Some st"
    and inv: "pool_inv cfg (pool w)"
  shows "usable (w\<lparr>pool := (pool w)\<lparr>shared := st, guards := a @ b, parked := p, woken := u\<rparr>,
    outcome := (outcome w)(i := None)\<rparr>) \<subseteq> usable w"
proof -
  have "map fst (idle st) = map fst (idle (shared (pool w))) \<or>
      (\<exists>x. r = Ok x) \<and> map fst (idle st) = map fst (idle (shared (pool w))) @ [c]"
    using drop_guard_Some(2) [OF st] by (cases r) (auto simp: after_use_def discard_def)
  then have "set (map fst (idle st)) \<subseteq> usable w"
    using g by (elim disjE exE conjE) (auto simp: usable_def)
  moreover have "i \<notin> set (map fst (a @ b))"
    using inv g(1) by (auto simp: pool_inv_def calls_def)
  ultimately show ?thesis using g(1) by (auto simp: usable_def image_iff)
qed

lemma session_in_step:
  assumes law: "codec_law L valid pending" "answering L valid quiet" "opens_quiet L fresh quiet"
    and ops: "\<forall>f \<in> ops. keeps (ready pending quiet) f"
  shows "reachable (session_start cfg t0 links) (session_step L au cfg fresh ops) w \<Longrightarrow>
    \<forall>c \<in> usable w. ready pending quiet (link w c)"
proof (induction rule: reachable.induct)
  case reachable_init
  show ?case by (simp add: usable_def session_start_def pool_start_def pool_with_config_def)
next
  case (reachable_step w v)
  note inv = session_pool_inv [OF reachable_step(1)]
    session_pool_inv [OF reachable.reachable_step [OF reachable_step(1,2)]]
  from reachable_step(2) reachable_step(3) inv show ?case
  proof (induction rule: session_step.induct)
    case (pass w t)
    then show ?case using usable_pass [of cfg t w] by auto
  next
    case (opened w a i b c s k)
    have "ready pending quiet k" by (rule from_stream_ready [OF law opened(3,4)])
    then show ?case using opened by (auto simp: usable_def)
  next
    case (used i c w f r k)
    have "c \<in> usable w" using used(1,2) by (auto simp: usable_def)
    then have "ready pending quiet (link w c)" using used(5) by blast
    then have k: "ready pending quiet k" if "r = Ok x" for x
      using keepsD [of "ready pending quiet" f "link w c" x k] used(3,4) ops that by blast
    then have "ready pending quiet k" if "\<not> is_err r"
      using that by (cases r) auto
    then show ?case using usable_used [OF used(6,1)] used(5) by fastforce
  next
    case (finished w a i c b r st p u)
    let ?v = "w\<lparr>pool := (pool w)\<lparr>shared := st, guards := a @ b, parked := p, woken := u\<rparr>,
      outcome := (outcome w)(i := None)\<rparr>"
    have "usable ?v \<subseteq> usable w" by (rule usable_finished [OF finished(1-3,6)])
    with finished(5) show ?case by auto
  qed
qed

lemma keeps_ops:
  assumes "codec_law L valid pending" and "answering L valid quiet" and "f \<in> tenant_ops L"
  shows "keeps (ready pending quiet) f"
  using assms(3) unfolding tenant_ops_def
  by (auto intro!: keeps_bind keeps_pure keeps_tenant_ops [OF assms(1,2)])

section \<open>A sample run\<close>

text \<open>
  A server that answers with a map or an empty array and may fail at any read, and a run over
  it: a call opens socket 7, finds nothing in a search and gives the connection back.
\<close>

definition session_net :: "(bytes, script) net" where
  "session_net = table_net [(1, Map []), (2, Array [])] (chunked [])"

definition whole_or_error :: "script \<Rightarrow> bool" where
  "whole_or_error s \<longleftrightarrow> (\<forall>e \<in> set (script_reads s). (\<exists>x. e = Err x) \<or> e = Ok [36, 1] \<or> e = Ok [36, 2])"

definition on_line :: "bytes \<Rightarrow> (io_error + bytes) list \<Rightarrow> (bytes, script) connection" where
  "on_line b r = \<lparr>stream = \<lparr>sent = b, script_reads = r\<rparr>, decoder = []\<rparr>"

definition session_sample ::
  "(bytes, script, answer) sessions"
where
  "session_sample = \<lparr>pool = idle_pool\<lparr>woken := []\<rparr>,
     link = (\<lambda>_. on_line [] [])(7 := on_line [33, 33] [Err (io_other ''timed out'')]),
     outcome = (\<lambda>_. None)\<rparr>"

abbreviation sample_step ::
  "(bytes, script, answer) sessions \<Rightarrow>
     (bytes, script, answer) sessions \<Rightarrow> bool"
where
  "sample_step \<equiv> session_step session_net None one_config whole_or_error (tenant_ops session_net)"

lemmas session_net_simps = session_net_def table_net_def whole_or_error_def on_line_def

lemma session_net_codec: "codec_law session_net (\<lambda>f. f \<in> {Map [], Array []}) id"
  using table_net_law [of "[(1, Map []), (2, Array [])]" "chunked []"] by (simp add: session_net_def)

lemma session_net_sends:
  "whole_or_error s \<Longrightarrow> \<exists>f. f \<in> {Map [], Array []} \<and> sends session_net whole_or_error s (encode_frame session_net f)"
proof (cases "script_reads s")
  case Nil
  then show ?thesis by (intro exI [of _ "Map []"]) (auto intro!: sends.closes simp: session_net_simps)
next
  case (Cons e r)
  assume s: "whole_or_error s"
  with Cons have r: "whole_or_error (s\<lparr>script_reads := r\<rparr>)" by (simp add: whole_or_error_def)
  from s Cons consider x where "e = Err x" | "e = Ok [36, 1]" | "e = Ok [36, 2]"
    by (auto simp: whole_or_error_def)
  then show ?thesis
  proof cases
    case (1 x)
    then show ?thesis using Cons
      by (intro exI [of _ "Map []"]) (auto intro!: sends.breaks simp: session_net_simps)
  next
    case 2
    have "sends session_net whole_or_error s ([36, 1] @ [])"
      using Cons 2 r by (intro sends.partly sends.all_sent) (auto simp: session_net_def table_net_def)
    then show ?thesis by (intro exI [of _ "Map []"]) (simp add: session_net_simps)
  next
    case 3
    have "sends session_net whole_or_error s ([36, 2] @ [])"
      using Cons 3 r by (intro sends.partly sends.all_sent) (auto simp: session_net_def table_net_def)
    then show ?thesis by (intro exI [of _ "Array []"]) (simp add: session_net_simps)
  qed
qed

lemma session_net_laws:
  "answering session_net (\<lambda>f. f \<in> {Map [], Array []}) whole_or_error"
  "opens_quiet session_net whole_or_error whole_or_error"
proof -
  have "whole_or_error s1" if "whole_or_error s" "write_all session_net b s = (Ok (), s1)" for b s s1
    using that by (auto simp: session_net_simps)
  with session_net_sends show "answering session_net (\<lambda>f. f \<in> {Map [], Array []}) whole_or_error"
    unfolding answering_def by blast
  show "opens_quiet session_net whole_or_error whole_or_error"
    by (simp add: opens_quiet_def session_net_def table_net_def)
qed

lemma session_net_call:
  "call session_net cmd args (on_line b (Ok [36, 2] # r)) = Some (Ok (Array []), on_line (b @ [33]) r)"
proof -
  have "recv session_net (on_line (b @ [33]) (Ok [36, 2] # r)) = Some (Ok (Array []), on_line (b @ [33]) r)"
    by (subst recv_more [where d = "[]" and b = "[36, 2]"])
      (auto simp: session_net_simps intro!: recv_ready [THEN trans])
  then show ?thesis
    by (simp add: call_unfold op_bind_step send_def request_def reply_result_def session_net_simps)
qed

lemma session_net_open:
  "from_stream session_net \<lparr>sent = [], script_reads = Ok [36, 1] # r\<rparr> None = Some (Ok (on_line [33] r))"
proof -
  have "recv session_net (on_line [33] (Ok [36, 1] # r)) = Some (Ok (Map []), on_line [33] r)"
    by (subst recv_more [where d = "[]" and b = "[36, 1]"])
      (auto simp: session_net_simps intro!: recv_ready [THEN trans])
  then show ?thesis
    by (simp add: from_stream_def hello_def Let_def op_bind_step send_def session_net_simps)
qed

lemma session_net_search:
  "search session_net index emb n (on_line b (Ok [36, 2] # r)) = Some (Ok ([], []), on_line (b @ [33]) r)"
  by (simp add: search_def op_bind_step session_net_call parse_vsearch_def)

lemma session_sample_reachable:
  "reachable (session_start one_config 5 (\<lambda>_. on_line [] [])) sample_step session_sample"
proof -
  let ?t = "Err (io_other ''timed out'') :: io_error + bytes"
  let ?R = "reachable (session_start one_config 5 (\<lambda>_. on_line [] [])) sample_step"
  let ?w = "\<lambda>n cs gs l out. \<lparr>pool = \<lparr>shared = \<lparr>idle = [] :: (nat \<times> nat) list, in_use = n\<rparr>, clock = 5,
    connecting = cs, parked = [], woken = [], guards = gs\<rparr>, link = (\<lambda>_. on_line [] [])(7 := l), outcome = out\<rparr>"
  let ?l1 = "on_line [33] [Ok [36, 2], ?t]" and ?l2 = "on_line [33, 33] [?t]"
  let ?f = "op_bind (search session_net ''hansa'' [] 64) (\<lambda>r. op_ok (Searched r))"
  let ?none = "(\<lambda>_. None) :: nat \<Rightarrow> (net_error + answer) option"
  have "?R (?w 0 [] [] (on_line [] []) ?none)"
    using reachable_init [of "session_start one_config 5 (\<lambda>_. on_line [] [])" sample_step]
    by (simp add: session_start_def pool_start_def pool_with_config_def fun_upd_idem)
  moreover have "sample_step (?w 0 [] [] (on_line [] []) ?none) (?w 1 [0] [] (on_line [] []) ?none)"
    using session_step.pass [of one_config "?w 0 [] [] (on_line [] []) ?none" "pool (?w 1 [0] [] (on_line [] []) ?none)"]
      pool_step.call [of 0 "pool (?w 0 [] [] (on_line [] []) ?none)" one_config]
    by (simp add: sample_simps)
  ultimately have "?R (?w 1 [0] [] (on_line [] []) ?none)" by (rule reachable_step)
  moreover have "sample_step (?w 1 [0] [] (on_line [] []) ?none) (?w 1 [] [(0, 7)] ?l1 ?none)"
    using session_step.opened [of "?w 1 [0] [] (on_line [] []) ?none" "[]" 0 "[]" 7 whole_or_error
        "\<lparr>sent = [], script_reads = [Ok [36, 1], Ok [36, 2], ?t]\<rparr>" session_net None ?l1 one_config]
      session_net_open [of "[Ok [36, 2], ?t]"]
    by (simp add: sockets_def whole_or_error_def)
  ultimately have "?R (?w 1 [] [(0, 7)] ?l1 ?none)" by (rule reachable_step)
  moreover have "sample_step (?w 1 [] [(0, 7)] ?l1 ?none) (?w 1 [] [(0, 7)] ?l2 (?none(0 := Some (Ok (Searched ([], []))))))"
  proof -
    have "?f \<in> tenant_ops session_net" by (auto simp: tenant_ops_def)
    moreover have "?f ?l1 = Some (Ok (Searched ([], [])), ?l2)"
      by (simp add: op_bind_step session_net_search)
    ultimately show ?thesis
      using session_step.used [of 0 7 "?w 1 [] [(0, 7)] ?l1 ?none" ?f "tenant_ops session_net" _ ?l2
          session_net None one_config whole_or_error] by simp
  qed
  ultimately have "?R (?w 1 [] [(0, 7)] ?l2 (?none(0 := Some (Ok (Searched ([], []))))))" by (rule reachable_step)
  moreover have "sample_step (?w 1 [] [(0, 7)] ?l2 (?none(0 := Some (Ok (Searched ([], [])))))) session_sample"
    using session_step.finished [of "?w 1 [] [(0, 7)] ?l2 (?none(0 := Some (Ok (Searched ([], [])))))" "[]" 0 7 "[]"
        "Ok (Searched ([], []))" one_config "\<lparr>idle = [(7, 5)], in_use = 0\<rparr>" "[]" "[]"]
    by (simp add: sample_simps after_use_def leave_def session_sample_def idle_pool_def fun_upd_idem)
  ultimately show ?thesis by (rule reachable_step)
qed

section \<open>What callers can rely on\<close>

text \<open>
  C8: nobody is given another caller's reply. In every interleaving of threads that run the
  tenant's operations over one pool, with connections that may fail in the middle of a reply,
  every connection that is idle, or lent and has not failed, is in step with the server: an
  operation on it returns, and a call on it gives the frame the server sent for this very
  request, an error frame as a remote error, or a failure of the connection.
\<close>

theorem pooled_replies_in_step:
  assumes "codec_law L valid pending" and "answering L valid quiet" and "opens_quiet L fresh quiet"
    and "reachable (session_start cfg t0 links) (session_step L au cfg fresh (tenant_ops L)) w"
    and "c \<in> usable w"
  shows "ready pending quiet (link w c) \<and>
    (\<forall>f \<in> tenant_ops L. f (link w c) \<noteq> None) \<and>
    (\<exists>r k. call L cmd args (link w c) = Some (r, k) \<and>
      (\<forall>f. r = Ok f \<longrightarrow> ready pending quiet k \<and>
        reply_to L quiet (request cmd args) (stream (link w c)) f) \<and>
      (\<forall>m. r = Err (Remote m) \<longrightarrow>
        (\<exists>e. m = [Disp e] \<and> reply_to L quiet (request cmd args) (stream (link w c)) (Error e))))"
proof -
  have ops: "\<forall>f \<in> tenant_ops L. keeps (ready pending quiet) f" using keeps_ops assms(1,2) by blast
  with session_in_step [OF assms(1-3) _ assms(4)] assms(5) have r: "ready pending quiet (link w c)" by blast
  moreover have "f (link w c) \<noteq> None" if "f \<in> tenant_ops L" for f
    using ops r that unfolding keeps_def by fastforce
  ultimately show ?thesis using call_ready [OF assms(1,2) r] by blast
qed

theorem pooled_replies_in_step_witness:
  "\<exists>r k. call session_net ''MGET'' [] (on_line [33, 33] [Err (io_other ''timed out'')]) = Some (r, k) \<and>
     (\<forall>f. r = Ok f \<longrightarrow> reply_to session_net whole_or_error (request ''MGET'' [])
        \<lparr>sent = [33, 33], script_reads = [Err (io_other ''timed out'')]\<rparr> f)"
proof -
  have "7 \<in> usable session_sample" by (simp add: usable_def session_sample_def idle_pool_def)
  from pooled_replies_in_step [OF session_net_codec session_net_laws session_sample_reachable this, of "''MGET''" "[]"]
  obtain r k where "call session_net ''MGET'' [] (link session_sample 7) = Some (r, k)"
      "\<forall>f. r = Ok f \<longrightarrow> reply_to session_net whole_or_error (request ''MGET'' []) (stream (link session_sample 7)) f"
    by blast
  then show ?thesis by (intro exI [of _ r] exI [of _ k]) (simp add: session_sample_def on_line_def)
qed

end
