(* ===== verification/PoolAlone.thy ===== *)
theory PoolAlone
  imports PoolSessions
begin

text \<open>
  The two accounts of borrowing agree. \<open>Tenant\<close> runs \<open>with_conn\<close> on a pool as one function, for a
  thread that has the pool to itself; \<open>PoolSessions\<close> takes the same call apart into the critical
  sections that other threads can come between. Here the function is shown to be one of the
  runs of the steps, the one in which nobody else acts.
\<close>

section \<open>A pool of connections and a pool of sockets\<close>

definition link_of :: "('d, 's, 'r) sessions \<Rightarrow> nat \<times> nat \<Rightarrow> ('d, 's) connection \<times> nat" where
  "link_of w e = (link w (fst e), snd e)"

text \<open>The threads' pool is \<open>p\<close>, read through the links, at the time \<open>now\<close>.\<close>

definition mirrors :: "nat \<Rightarrow> ('d, 's) pool \<Rightarrow> ('d, 's, 'r) sessions \<Rightarrow> bool" where
  "mirrors now p w \<longleftrightarrow>
     pool_inv (config p) (pool w) \<and> clock (pool w) = now \<and> parked (pool w) = [] \<and> woken (pool w) = [] \<and>
     in_use (pstate p) = in_use (shared (pool w)) \<and>
     idle (pstate p) = map (link_of w) (idle (shared (pool w)))"

definition alone :: "nat \<Rightarrow> ('d, 's) pool \<Rightarrow> ('d, 's, 'r) sessions \<Rightarrow> bool" where
  "alone now p w \<longleftrightarrow> mirrors now p w \<and> connecting (pool w) = [] \<and> guards (pool w) = [] \<and> outcome w = (\<lambda>_. None)"

lemma evict_link: "evict t now (map (link_of w) q) = map (link_of w) (evict t now q)"
  by (induction q) (auto simp: link_of_def)

lemma try_acquire_link:
  assumes "idle st = map (link_of w) (idle s)" and "in_use st = in_use s"
  shows "try_acquire now cfg st =
    (case try_acquire now cfg s of
       (Reuse c, s') \<Rightarrow> (Reuse (link w c), st\<lparr>idle := map (link_of w) (idle s'), in_use := in_use s'\<rparr>)
     | (Reserve, s') \<Rightarrow> (Reserve, st\<lparr>idle := map (link_of w) (idle s'), in_use := in_use s'\<rparr>)
     | (AtCap, s') \<Rightarrow> (AtCap, st\<lparr>idle := map (link_of w) (idle s'), in_use := in_use s'\<rparr>))"
  using assms by (auto simp: try_acquire_def evict_link link_of_def split: list.splits)

lemma run_inv:
  "reachable w (session_step L au cfg fresh ops) v \<Longrightarrow> pool_inv cfg (pool w) \<Longrightarrow> pool_inv cfg (pool v)"
  by (induction rule: reachable.induct) (use session_step_pool pool_inv_step in metis)+

section \<open>Borrowing\<close>

text \<open>The threads in a state of \<open>alone\<close>.\<close>

lemma alone_pool:
  "alone now p w \<Longrightarrow> pool w = \<lparr>shared = shared (pool w), clock = now, connecting = [], parked = [],
     woken = [], guards = []\<rparr>"
  by (simp add: alone_def mirrors_def)

lemma first_pass:
  assumes w: "alone now p w" and a: "try_acquire now (config p) (shared (pool w)) = (a, st)"
  shows "reachable w (session_step L au (config p) fresh ops) (w\<lparr>pool := enter 0 a ((pool w)\<lparr>shared := st\<rparr>)\<rparr>)"
proof -
  have e: "connecting (pool w) = []" "parked (pool w) = []" "woken (pool w) = []" "guards (pool w) = []"
      "clock (pool w) = now" using w by (simp_all add: alone_def mirrors_def)
  have "pool_step (config p) (pool w) (enter 0 a ((pool w)\<lparr>shared := st\<rparr>))"
    using pool_step.call [of 0 "pool w"] a e by (simp add: calls_def)
  moreover have "set (sockets (enter 0 a ((pool w)\<lparr>shared := st\<rparr>))) \<subseteq> set (sockets (pool w))"
    using a e by (cases "shared (pool w)" now "config p" rule: try_acquire_cases) (auto simp: sockets_def)
  ultimately have "session_step L au (config p) fresh ops w (w\<lparr>pool := enter 0 a ((pool w)\<lparr>shared := st\<rparr>)\<rparr>)"
    using e by (intro session_step.pass) auto
  then show ?thesis by (rule reachable_one)
qed

lemma borrow_run:
  assumes w: "alone t1 p w" and a: "acquire L t1 p = Some (Ok g, p1)"
    and fresh: "\<forall>s. tcp_connect L (endpoint p) = Ok s \<longrightarrow> fresh s"
  shows "\<exists>v c. reachable w (session_step L (auth p) (config p) fresh ops) v \<and> mirrors t1 p1 v \<and>
    guards (pool v) = [(0, c)] \<and> connecting (pool v) = [] \<and> outcome v = (\<lambda>_. None) \<and>
    g = \<lparr>conn = Some (link v c)\<rparr> \<and> config p1 = config p \<and> auth p1 = auth p"
proof -
  have m: "idle (pstate p) = map (link_of w) (idle (shared (pool w)))" "in_use (pstate p) = in_use (shared (pool w))"
    and e: "connecting (pool w) = []" "parked (pool w) = []" "woken (pool w) = []" "guards (pool w) = []"
      "clock (pool w) = t1" "outcome w = (\<lambda>_. None)" and inv: "pool_inv (config p) (pool w)"
    using w by (simp_all add: alone_def mirrors_def)
  note link = try_acquire_link [OF m, of t1 "config p"]
  let ?step = "session_step L (auth p) (config p) fresh ops"
  show ?thesis
  proof (cases "shared (pool w)" t1 "config p" rule: try_acquire_cases)
    case (Reuse c ts rest old)
    let ?v = "w\<lparr>pool := enter 0 (Reuse c) ((pool w)\<lparr>shared := (shared (pool w))\<lparr>idle := rest,
      in_use := in_use (shared (pool w)) + 1\<rparr>\<rparr>)\<rparr>"
    have run: "reachable w ?step ?v" by (rule first_pass [OF w Reuse(2)])
    have g: "g = \<lparr>conn = Some (link w c)\<rparr>" and p1: "p1 = p\<lparr>pstate := (pstate p)\<lparr>idle := map (link_of w) rest,
        in_use := in_use (shared (pool w)) + 1\<rparr>\<rparr>"
      using a Reuse(2) link by (auto simp: acquire_def)
    have "mirrors t1 p1 ?v" using run_inv [OF run inv] e by (simp add: mirrors_def p1 link_of_def [abs_def])
    with run e g p1 show ?thesis by (intro exI [of _ ?v] exI [of _ c]) simp
  next
    case Reserve
    let ?st = "(shared (pool w))\<lparr>idle := [], in_use := in_use (shared (pool w)) + 1\<rparr>"
    let ?u = "w\<lparr>pool := enter 0 Reserve ((pool w)\<lparr>shared := ?st\<rparr>)\<rparr>"
    from a Reserve(2) link obtain s k where k: "tcp_connect L (endpoint p) = Ok s"
        "from_stream L s (auth p) = Some (Ok k)" "g = \<lparr>conn = Some k\<rparr>"
        "p1 = p\<lparr>pstate := (pstate p)\<lparr>idle := [], in_use := in_use (shared (pool w)) + 1\<rparr>\<rparr>"
      by (auto simp: acquire_def connect_def split: option.splits sum.splits)
    let ?v = "?u\<lparr>pool := (pool ?u)\<lparr>connecting := [] @ [], guards := (0, 0) # guards (pool ?u)\<rparr>,
      link := (link ?u)(0 := k)\<rparr>"
    have "?step ?u ?v"
      using e k fresh by (intro session_step.opened) (auto simp: sockets_def)
    with reachable_step [OF first_pass [OF w Reserve(2)]]
    have run: "reachable w ?step ?v" by blast
    have "mirrors t1 p1 ?v" using run_inv [OF run inv] e k(4) by (simp add: mirrors_def)
    with run e k(3,4) show ?thesis by (intro exI [of _ ?v] exI [of _ 0]) simp
  next
    case AtCap
    with a link show ?thesis by (simp add: acquire_def)
  qed
qed

lemma refused_run:
  assumes w: "alone t1 p w" and a: "acquire L t1 p = Some (Err e, p1)" and "t1 \<le> t2"
  shows "\<exists>v. reachable w (session_step L (auth p) (config p) fresh ops) v \<and> alone t2 p1 v \<and>
    connect L (endpoint p) (auth p) = Some (Err e)"
proof -
  have m: "idle (pstate p) = map (link_of w) (idle (shared (pool w)))" "in_use (pstate p) = in_use (shared (pool w))"
    and e: "connecting (pool w) = []" "parked (pool w) = []" "woken (pool w) = []" "guards (pool w) = []"
      "clock (pool w) = t1" "outcome w = (\<lambda>_. None)" and inv: "pool_inv (config p) (pool w)"
    using w by (simp_all add: alone_def mirrors_def)
  note link = try_acquire_link [OF m, of t1 "config p"]
  let ?step = "session_step L (auth p) (config p) fresh ops"
  show ?thesis
  proof (cases "shared (pool w)" t1 "config p" rule: try_acquire_cases)
    case Reserve
    let ?st = "(shared (pool w))\<lparr>idle := [], in_use := in_use (shared (pool w)) + 1\<rparr>"
    let ?u = "w\<lparr>pool := enter 0 Reserve ((pool w)\<lparr>shared := ?st\<rparr>)\<rparr>"
    let ?t = "(pool ?u)\<lparr>shared := (shared (pool w))\<lparr>idle := []\<rparr>, connecting := [] @ [], parked := [], woken := []\<rparr>"
    have "pool_step (config p) (pool ?u) ?t"
      using e by (intro pool_step.refused) (auto simp: connect_failed_def)
    then have "?step ?u (?u\<lparr>pool := ?t\<rparr>)"
      using e by (intro session_step.pass) (auto simp: sockets_def)
    with reachable_step [OF first_pass [OF w Reserve(2)]]
    have run: "reachable w ?step (?u\<lparr>pool := ?t\<rparr>)" by blast
    let ?v = "?u\<lparr>pool := ?t\<lparr>clock := clock ?t + (t2 - t1)\<rparr>\<rparr>"
    have "?step (?u\<lparr>pool := ?t\<rparr>) ?v"
      using session_step.pass [OF pool_step.later, of "?u\<lparr>pool := ?t\<rparr>" "t2 - t1"] by (simp add: sockets_def)
    with run have run: "reachable w ?step ?v" by (rule reachable_step)
    have "p1 = p\<lparr>pstate := (pstate p)\<lparr>idle := [], in_use := in_use (shared (pool w))\<rparr>\<rparr>"
      and "connect L (endpoint p) (auth p) = Some (Err e)"
      using a Reserve(2) link by (auto simp: acquire_def connect_failed_def split: option.splits sum.splits)
    with run run_inv [OF run inv] e \<open>t1 \<le> t2\<close> show ?thesis
      by (intro exI [of _ ?v]) (simp add: alone_def mirrors_def)
  qed (use a link in \<open>auto simp: acquire_def\<close>)
qed

section \<open>Giving back\<close>

lemma drop_guard_link:
  assumes "in_use st = in_use s" and "idle st = map (link_of v) (idle s)" and "(c, ts) \<notin> set (idle s)"
    and same: "\<And>e. e \<in> set (idle s) \<Longrightarrow> link_of z e = link_of v e" and "link z c = k"
    and d: "drop_guard now cfg (after_use r \<lparr>conn = Some k\<rparr>) st = Some st'"
  shows "\<exists>s'. drop_guard now cfg (after_use r \<lparr>conn = Some c\<rparr>) s = Some s' \<and>
    in_use st' = in_use s' \<and> idle st' = map (link_of z) (idle s')"
proof -
  have "idle st = map (link_of z) (idle s)" using assms(2) same by simp
  with d assms(1,5) show ?thesis
    by (cases r) (auto simp: after_use_def discard_def drop_guard_def bind_eq_Some_conv link_of_def)
qed

lemma give_back_run:
  assumes m: "mirrors t1 p v" and g: "guards (pool v) = [(0, c)]" "connecting (pool v) = []"
    "outcome v = (\<lambda>_. None)"
    and f: "f \<in> ops" "f (link v c) = Some (r, k)" and "t1 \<le> t2"
    and d: "drop_guard t2 (config p) (after_use r \<lparr>conn = Some k\<rparr>) (pstate p) = Some st"
  shows "\<exists>u z. reachable v (session_step L (auth p) (config p) fresh ops) u \<and> outcome u 0 = Some r \<and>
    reachable u (session_step L (auth p) (config p) fresh ops) z \<and> alone t2 (p\<lparr>pstate := st\<rparr>) z"
proof -
  let ?step = "session_step L (auth p) (config p) fresh ops"
  have inv: "pool_inv (config p) (pool v)" and e: "parked (pool v) = []" "woken (pool v) = []" "clock (pool v) = t1"
    and st: "in_use (pstate p) = in_use (shared (pool v))" "idle (pstate p) = map (link_of v) (idle (shared (pool v)))"
    using m by (simp_all add: mirrors_def)
  let ?u = "v\<lparr>link := (link v)(c := k), outcome := (outcome v)(0 := Some r)\<rparr>"
  let ?y = "?u\<lparr>pool := (pool ?u)\<lparr>clock := clock (pool ?u) + (t2 - t1)\<rparr>\<rparr>"
  have u: "?step v ?u" using g f by (intro session_step.used [where f = f]) auto
  have y: "?step ?u ?y"
    by (rule session_step.pass [OF pool_step.later]) (simp_all add: sockets_def)
  have c: "(c, ts) \<notin> set (idle (shared (pool v)))" for ts using used_by(3) [OF inv] g(1) by simp
  then have "link_of ?y e = link_of v e" if "e \<in> set (idle (shared (pool v)))" for e
    using that by (cases e) (auto simp: link_of_def)
  from drop_guard_link [OF st c this _ d] obtain s' where
    s': "drop_guard t2 (config p) (after_use r \<lparr>conn = Some c\<rparr>) (shared (pool v)) = Some s'"
      "in_use st = in_use s'" "idle st = map (link_of ?y) (idle s')" by auto
  let ?z = "?y\<lparr>pool := (pool ?y)\<lparr>shared := s', guards := [] @ [], parked := [], woken := []\<rparr>,
    outcome := (outcome ?y)(0 := None)\<rparr>"
  have "?step ?y ?z"
    using g e s'(1) \<open>t1 \<le> t2\<close> by (intro session_step.finished [where i = 0 and c = c and r = r]) auto
  with y have z: "reachable ?u ?step ?z" by (blast intro: reachable.intros)
  moreover have "pool_inv (config p) (pool ?z)"
    using run_inv [OF reachable_trans [OF z reachable_one [of ?step, OF u]] inv] .
  moreover have "idle st = map (link_of ?z) (idle s')" using s'(3) by (simp add: link_of_def [abs_def])
  ultimately have "alone t2 (p\<lparr>pstate := st\<rparr>) ?z"
    using g e s'(2) \<open>t1 \<le> t2\<close> by (simp add: alone_def mirrors_def fun_upd_idem)
  with z reachable_one [of ?step, OF u] show ?thesis by (intro exI [of _ ?u] exI [of _ ?z]) simp
qed

section \<open>The function and the steps\<close>

text \<open>
  Borrowing as one function is the run of the threads in which nobody else acts: when it
  returns, the steps lead from a pool that is alone to one that is, with the pool the function
  returns, and a result other than the failure to get a connection is the outcome of its call on the way.
\<close>

lemma with_pooled_is_a_run:
  assumes "with_pooled L (t1, t2) f p = Some (r, p')" and "alone t1 p w" and "f \<in> ops" and "t1 \<le> t2"
    and "\<forall>s. tcp_connect L (endpoint p) = Ok s \<longrightarrow> fresh s"
  shows "\<exists>u v. reachable w (session_step L (auth p) (config p) fresh ops) u \<and>
    (outcome u 0 = Some r \<or> (\<exists>e. r = Err e \<and> connect L (endpoint p) (auth p) = Some (Err e))) \<and>
    reachable u (session_step L (auth p) (config p) fresh ops) v \<and> alone t2 p' v"
proof -
  obtain a p1 where a: "acquire L t1 p = Some (a, p1)"
    using assms(1) by (cases "acquire L t1 p") (auto simp: with_pooled_def op_bind_def)
  show ?thesis
  proof (cases a)
    case (Inl e)
    with a assms(1) have "r = Err e" "p' = p1" by (auto simp: with_pooled_def op_bind_step)
    with refused_run [OF assms(2) a [unfolded Inl] assms(4)] show ?thesis by (blast intro: reachable_init)
  next
    case (Inr g)
    from borrow_run [OF assms(2) a [unfolded Inr] assms(5), of ops] obtain v c where
      v: "reachable w (session_step L (auth p) (config p) fresh ops) v" "mirrors t1 p1 v"
        "guards (pool v) = [(0, c)]" "connecting (pool v) = []" "outcome v = (\<lambda>_. None)"
        "g = \<lparr>conn = Some (link v c)\<rparr>" "config p1 = config p" "auth p1 = auth p" by blast
    from assms(1) a Inr v(6) obtain k st where "f (link v c) = Some (r, k)"
        "drop_guard t2 (config p1) (after_use r \<lparr>conn = Some k\<rparr>) (pstate p1) = Some st" "p' = p1\<lparr>pstate := st\<rparr>"
      by (auto simp: with_pooled_def op_bind_step conn_mut_def bind_eq_Some_conv)
    with give_back_run [OF v(2-5) assms(3) _ assms(4), of r k st L fresh] v(7,8) obtain u z where
      "reachable v (session_step L (auth p) (config p) fresh ops) u" "outcome u 0 = Some r"
      "reachable u (session_step L (auth p) (config p) fresh ops) z" "alone t2 p' z" by auto
    with reachable_trans [OF _ v(1)] show ?thesis by blast
  qed
qed

end
