(* ===== verification/Exchange.thy ===== *)
theory Exchange
  imports TenantProps Writer "HOL-Library.Countable"
begin

text \<open>
  A writer and a reader on the wire to one server. What the code relies on of skeg-server is
  stated twice: \<open>server_law\<close> says that a request written to a quiet socket is answered by one
  frame, \<open>store_law\<close> what the answers to the commands the code sends have to do with the
  server's state. The theory runs a sequence of inserts and a query against any such server,
  and ends with a concrete one.
\<close>

section \<open>The server\<close>

definition server_law ::
  "('d, 's) net \<Rightarrow> (frame \<Rightarrow> bool) \<Rightarrow> ('s \<Rightarrow> bool) \<Rightarrow> ('s \<Rightarrow> 'db) \<Rightarrow>
     (string \<Rightarrow> bytes list \<Rightarrow> 'db \<Rightarrow> frame \<times> 'db) \<Rightarrow> bool"
where
  "server_law L valid quiet db serve \<longleftrightarrow>
     (\<forall>cmd args s. quiet s \<longrightarrow>
        (let (reply, D) = serve cmd args (db s) in
         \<exists>s1 chunks s2.
           write_all L (encode_frame L (request cmd args)) s = (Ok (), s1) \<and>
           delivers L s1 chunks s2 \<and> concat chunks = encode_frame L reply \<and>
           valid reply \<and> quiet s2 \<and> db s2 = D))"

text \<open>
  A view of the server's state: its keys, the candidates a search with these arguments finds,
  and its indexes with their dimension and number of vectors.
\<close>

record 'db store =
  keys_of :: "'db \<Rightarrow> bytes \<Rightarrow> bytes option"
  found_by :: "'db \<Rightarrow> bytes list \<Rightarrow> (u64 \<times> u32) list"
  indexes_of :: "'db \<Rightarrow> (string \<times> u32 \<times> u64) list"

definition dim_of :: "'db store \<Rightarrow> 'db \<Rightarrow> string \<Rightarrow> u32 option" where
  "dim_of V D index = map_option fst (map_of (indexes_of V D) index)"

definition key_row :: "bytes option \<Rightarrow> frame" where
  "key_row v = (case v of Some b \<Rightarrow> Bulk b | None \<Rightarrow> Null)"

text \<open>
  \<open>SET\<close> binds its key; \<open>SKEG.VSET\<close> accepts a vector of the dimension of its index and binds no
  key; neither changes the dimension of an index. The reading commands change nothing and
  answer with what the state holds.
\<close>

definition store_law :: "(string \<Rightarrow> bytes list \<Rightarrow> 'db \<Rightarrow> frame \<times> 'db) \<Rightarrow> 'db store \<Rightarrow> bool" where
  "store_law serve V \<longleftrightarrow> (\<forall>D.
     (\<forall>k x. let (f, D') = serve ''SET'' [k, x] D in
        \<not> is_err (reply_result f) \<and> keys_of V D' = (keys_of V D)(k \<mapsto> x) \<and> dim_of V D' = dim_of V D) \<and>
     (\<forall>n i v d. dim_of V D n = Some d \<longrightarrow> length v = unat d \<longrightarrow>
        (let (f, D') = serve ''SKEG.VSET'' [as_bytes n, as_bytes (show_u64 i), encode_vector v] D in
         \<not> is_err (reply_result f) \<and> keys_of V D' = keys_of V D \<and> dim_of V D' = dim_of V D)) \<and>
     (\<forall>ks. serve ''MGET'' ks D = (Array (map (\<lambda>k. key_row (keys_of V D k)) ks), D)) \<and>
     (\<forall>args. \<exists>ps. list_all2 pair_frames (found_by V D args) ps \<and>
        serve ''SKEG.VSEARCH'' args D = (Array (concat (map (\<lambda>(f, g). [f, g]) ps)), D)) \<and>
     (\<forall>e \<in> set (indexes_of V D). plain_name (fst e)) \<and>
     serve ''SKEG.VINDEX.LIST'' [] D =
       (Array (map (\<lambda>e. Bulk (as_bytes (render_row e))) (indexes_of V D)), D))"

lemma store_lawD:
  assumes "store_law serve V"
  shows "\<exists>f r D'. serve ''SET'' [k, x] D = (f, D') \<and> reply_result f = Ok r \<and>
        keys_of V D' = (keys_of V D)(k \<mapsto> x) \<and> dim_of V D' = dim_of V D"
    and "dim_of V D n = Some d \<Longrightarrow> length v = unat d \<Longrightarrow>
      \<exists>f r D'. serve ''SKEG.VSET'' [as_bytes n, as_bytes (show_u64 i), encode_vector v] D = (f, D') \<and>
        reply_result f = Ok r \<and> keys_of V D' = keys_of V D \<and> dim_of V D' = dim_of V D"
    and "serve ''MGET'' ks D = (Array (map (\<lambda>k. key_row (keys_of V D k)) ks), D)"
    and "\<exists>ps. list_all2 pair_frames (found_by V D args) ps \<and>
        serve ''SKEG.VSEARCH'' args D = (Array (concat (map (\<lambda>(f, g). [f, g]) ps)), D)"
    and "\<forall>e \<in> set (indexes_of V D). plain_name (fst e)"
    and "serve ''SKEG.VINDEX.LIST'' [] D =
       (Array (map (\<lambda>e. Bulk (as_bytes (render_row e))) (indexes_of V D)), D)"
proof -
  have ok: "\<not> is_err r \<longleftrightarrow> (\<exists>f. r = Ok f)" for r :: "net_error + frame" by (cases r) auto
  note law = spec [OF assms [unfolded store_law_def], of D]
  show "\<exists>f r D'. serve ''SET'' [k, x] D = (f, D') \<and> reply_result f = Ok r \<and>
      keys_of V D' = (keys_of V D)(k \<mapsto> x) \<and> dim_of V D' = dim_of V D"
    using law unfolding Let_def ok by fastforce
  show "\<exists>f r D'. serve ''SKEG.VSET'' [as_bytes n, as_bytes (show_u64 i), encode_vector v] D = (f, D') \<and>
      reply_result f = Ok r \<and> keys_of V D' = keys_of V D \<and> dim_of V D' = dim_of V D"
    if "dim_of V D n = Some d" "length v = unat d"
    using law that unfolding Let_def ok by fastforce
qed (use spec [OF assms [unfolded store_law_def], of D] in blast)+

section \<open>Calls to the server\<close>

lemma call_served:
  assumes "codec_law L valid pending" and "server_law L valid quiet db serve"
    and "ready pending quiet c" and "serve cmd args (db (stream c)) = (f, D)"
  shows "\<exists>c'. call L cmd args c = Some (reply_result f, c') \<and> ready pending quiet c' \<and> db (stream c') = D"
proof -
  have "quiet (stream c)" "pending (decoder c) = []" using assms(3) by (simp_all add: ready_def)
  with assms(2,4) obtain s1 chunks s2 where
    s: "write_all L (encode_frame L (request cmd args)) (stream c) = (Ok (), s1)"
      "delivers L s1 chunks s2" "concat chunks = encode_frame L f" "valid f" "quiet s2" "db s2 = D"
    unfolding server_law_def by fastforce
  from call_in_step [OF assms(1) s(4) \<open>pending (decoder c) = []\<close> s(1,2,3)] s(5,6) show ?thesis
    by (auto simp: ready_def)
qed

text \<open>A connection to a server that keeps both laws, and the state it is in.\<close>

definition online ::
  "('d, 's) net \<Rightarrow> (frame \<Rightarrow> bool) \<Rightarrow> ('d \<Rightarrow> bytes) \<Rightarrow> ('s \<Rightarrow> bool) \<Rightarrow> ('s \<Rightarrow> 'db) \<Rightarrow>
     (string \<Rightarrow> bytes list \<Rightarrow> 'db \<Rightarrow> frame \<times> 'db) \<Rightarrow> 'db store \<Rightarrow> bool"
where
  "online L valid pending quiet db serve V \<longleftrightarrow>
     codec_law L valid pending \<and> server_law L valid quiet db serve \<and> store_law serve V"

lemma online_call:
  assumes "online L valid pending quiet db serve V" and "ready pending quiet c"
    and "serve cmd args (db (stream c)) = (f, D)"
  shows "\<exists>c'. call L cmd args c = Some (reply_result f, c') \<and> ready pending quiet c' \<and> db (stream c') = D"
proof -
  have "codec_law L valid pending" "server_law L valid quiet db serve"
    using assms(1) by (simp_all add: online_def)
  from call_served [OF this assms(2,3)] show ?thesis .
qed

section \<open>Publishing\<close>

text \<open>The keys a server holds after these records were set, last one first.\<close>

definition stored :: "codecs \<Rightarrow> (u64 \<times> record_envelope) list \<Rightarrow> bytes \<Rightarrow> bytes option" where
  "stored ext rs = map_of (rev (map (\<lambda>(i, e). (as_bytes (envelope_key_for i), encode_binary ext e)) rs))"

text \<open>One insert after the other, up to the first that fails.\<close>

fun insert_all ::
  "codecs \<Rightarrow> ('d, 's) net \<Rightarrow> (u64 \<times> u32 list \<times> record_envelope) list \<Rightarrow> (('d, 's) writer, unit) op"
where
  "insert_all ext L [] = op_ok ()"
| "insert_all ext L ((i, v, e) # rs) =
     op_bind (insert ext L i v (shareable e) (tags e) (payload e)) (\<lambda>_. insert_all ext L rs)"

definition keyed :: "(u64 \<times> u32 list \<times> record_envelope) list \<Rightarrow> (u64 \<times> record_envelope) list" where
  "keyed rs = map (\<lambda>(i, v, e). (i, e)) rs"

lemma insert_online:
  assumes on: "online L valid pending quiet db serve V" and "ready pending quiet (wconn w)"
    and "length v = unat (wdim w)" and dim: "dim_of V (db (stream (wconn w))) (windex w) = Some (wdim w)"
  shows "\<exists>c. insert ext L i v (shareable e) (tags e) (payload e) w = Some (Ok (), w\<lparr>wconn := c\<rparr>) \<and>
    ready pending quiet c \<and>
    keys_of V (db (stream c)) =
      (keys_of V (db (stream (wconn w))))(as_bytes (envelope_key_for i) \<mapsto> encode_binary ext e) \<and>
    dim_of V (db (stream c)) = dim_of V (db (stream (wconn w)))"
proof -
  have law: "store_law serve V" using on by (simp add: online_def)
  let ?D = "db (stream (wconn w))"
  let ?vset = "[as_bytes (windex w), as_bytes (show_u64 i), encode_vector v]"
  let ?set = "[as_bytes (envelope_key_for i), encode_binary ext e]"
  obtain c1 f1 where c1: "call L ''SKEG.VSET'' ?vset (wconn w) = Some (Ok f1, c1)"
      "ready pending quiet c1" "keys_of V (db (stream c1)) = keys_of V ?D" "dim_of V (db (stream c1)) = dim_of V ?D"
    using online_call [OF on assms(2), of "''SKEG.VSET''" ?vset] store_lawD(2) [OF law dim assms(3), of i]
    by metis
  obtain c2 f2 where c2: "call L ''SET'' ?set c1 = Some (Ok f2, c2)" "ready pending quiet c2"
      "keys_of V (db (stream c2)) =
        (keys_of V (db (stream c1)))(as_bytes (envelope_key_for i) \<mapsto> encode_binary ext e)"
      "dim_of V (db (stream c2)) = dim_of V (db (stream c1))"
    using online_call [OF on c1(2), of "''SET''" ?set] store_lawD(1) [OF law] by metis
  have "of_nat (length v) = wdim w" using assms(3) by simp
  moreover have "envelope_new (shareable e) (tags e) (payload e) = e" by (simp add: envelope_new_def)
  ultimately have "insert ext L i v (shareable e) (tags e) (payload e) w = Some (Ok (), w\<lparr>wconn := c2\<rparr>)"
    using c1(1) c2(1) by (auto simp: insert_Ok)
  with c1 c2 show ?thesis by auto
qed

lemma insert_all_online:
  assumes on: "online L valid pending quiet db serve V"
  shows "ready pending quiet (wconn w) \<Longrightarrow> \<forall>r \<in> set rs. length (fst (snd r)) = unat (wdim w) \<Longrightarrow>
    dim_of V (db (stream (wconn w))) (windex w) = Some (wdim w) \<Longrightarrow>
    \<exists>c. insert_all ext L rs w = Some (Ok (), w\<lparr>wconn := c\<rparr>) \<and> ready pending quiet c \<and>
      keys_of V (db (stream c)) = keys_of V (db (stream (wconn w))) ++ stored ext (keyed rs) \<and>
      dim_of V (db (stream c)) = dim_of V (db (stream (wconn w)))"
proof (induction rs arbitrary: w)
  case Nil
  then show ?case by (intro exI [of _ "wconn w"]) (simp add: stored_def keyed_def)
next
  case (Cons r rs)
  obtain i v e where r: "r = (i, v, e)" by (cases r)
  from insert_online [OF on Cons.prems(1) _ Cons.prems(3), of v ext i e] Cons.prems(2) r obtain c where
    c: "insert ext L i v (shareable e) (tags e) (payload e) w = Some (Ok (), w\<lparr>wconn := c\<rparr>)"
      "ready pending quiet c"
      "keys_of V (db (stream c)) =
        (keys_of V (db (stream (wconn w))))(as_bytes (envelope_key_for i) \<mapsto> encode_binary ext e)"
      "dim_of V (db (stream c)) = dim_of V (db (stream (wconn w)))" by auto
  from Cons.IH [of "w\<lparr>wconn := c\<rparr>"] Cons.prems(2,3) c(2,4) obtain c' where
    c': "insert_all ext L rs (w\<lparr>wconn := c\<rparr>) = Some (Ok (), w\<lparr>wconn := c'\<rparr>)" "ready pending quiet c'"
      "keys_of V (db (stream c')) = keys_of V (db (stream c)) ++ stored ext (keyed rs)"
      "dim_of V (db (stream c')) = dim_of V (db (stream c))" by auto
  have "stored ext (keyed (r # rs)) =
      [as_bytes (envelope_key_for i) \<mapsto> encode_binary ext e] ++ stored ext (keyed rs)"
    by (simp add: r stored_def keyed_def map_of_append)
  with c c' show ?case by (intro exI [of _ c']) (simp add: r op_bind_step)
qed

section \<open>Querying\<close>

text \<open>The row of a \<open>MGET\<close> reply for a candidate.\<close>

definition stored_row :: "codecs \<Rightarrow> (u64 \<times> record_envelope) list \<Rightarrow> u64 \<times> u32 \<Rightarrow> frame" where
  "stored_row ext rs c =
     (case stored ext rs (as_bytes (envelope_key_for (fst c))) of Some b \<Rightarrow> Bulk b | None \<Rightarrow> Null)"

text \<open>The hit for a candidate, straight from the records.\<close>

definition record_hit ::
  "(record_meta \<Rightarrow> bool) \<Rightarrow> (u64 \<times> record_envelope) list \<Rightarrow> u64 \<times> u32 \<Rightarrow> hit option"
where
  "record_hit accept rs c =
     (case map_of (rev rs) (fst c) of
        None \<Rightarrow> None
      | Some e \<Rightarrow>
          if accept \<lparr>meta_id = fst c, meta_shareable = shareable e, meta_tags = tags e\<rparr>
          then Some \<lparr>hit_id = fst c, similarity = snd c, hit_payload = payload e, embedding = None\<rparr>
          else None)"

lemma map_of_key_map:
  assumes "inj f"
  shows "map_of (map (\<lambda>(i, e). (f i, g e)) xs) (f i) = map_option g (map_of xs i)"
  using assms by (induction xs) (auto simp: inj_eq)

lemma inj_as_bytes: "as_bytes s = as_bytes t \<longleftrightarrow> s = t"
  by (metis string_of_as_bytes)

lemma stored_key: "stored ext rs (as_bytes (envelope_key_for i)) = map_option (encode_binary ext) (map_of (rev rs) i)"
proof -
  have "inj (\<lambda>i. as_bytes (envelope_key_for i))"
    by (simp add: inj_def inj_as_bytes envelope_key_inj)
  from map_of_key_map [OF this] show ?thesis by (simp add: stored_def rev_map)
qed

lemma map_filter_zip_map: "List.map_filter g (zip cs (map f cs)) = List.map_filter (\<lambda>c. g (c, f c)) cs"
  by (induction cs) (simp_all add: map_filter_simps split: option.split)

lemma record_storable: "\<forall>r \<in> set rs. storable (snd r) \<Longrightarrow> map_of (rev rs) i = Some e \<Longrightarrow> storable e"
  by (fastforce dest!: map_of_SomeD)

lemma stored_row_readable:
  "\<forall>r \<in> set rs. storable (snd r) \<Longrightarrow> readable ext (stored_row ext rs c)"
  using decode_encode_binary_dispatch [of _ ext "[]"] record_storable [of rs "fst c"]
  by (auto simp: readable_def stored_row_def stored_key split: option.split)

lemma accepted_stored_row:
  "\<forall>r \<in> set rs. storable (snd r) \<Longrightarrow> accepted ext accept (c, stored_row ext rs c) = record_hit accept rs c"
  using decode_encode_binary_dispatch [of _ ext "[]"] record_storable [of rs "fst c"]
  by (cases c) (auto simp: accepted_def stored_row_def stored_key record_hit_def split: option.split)

text \<open>
  When the server answers \<open>MGET\<close> with what was set, the query returns for every candidate the
  record last inserted under its id, if the filter accepts it.
\<close>

lemma published_records_found:
  assumes "\<forall>r \<in> set rs. storable (snd r)"
    and "of_nat (length emb) = embedding_dim t"
    and "with_conn L tm (search L (index_name t) emb (oversample top_k)) (source t) = Some (Ok (cs, rows), w)"
    and "rows = map (stored_row ext rs) cs"
  shows "query_filtered ext L tm t emb top_k accept =
    Some (Ok (take (max 1 (unat top_k)) (List.map_filter (record_hit accept rs) cs)), t\<lparr>source := w\<rparr>)"
proof -
  have "\<forall>row \<in> set rows. readable ext row"
    using assms(1,4) by (auto intro: stored_row_readable)
  from query_readable [OF assms(2,3) this] show ?thesis
    using assms(1) by (simp add: assms(4) first_hits_def map_filter_zip_map accepted_stored_row)
qed

lemma from_connection_online:
  assumes on: "online L valid pending quiet db serve V" and "ready pending quiet c"
    and "dim_of V (db (stream c)) index = Some d"
  shows "\<exists>c' n. from_connection L c tid index =
      Some (Ok \<lparr>source = Owned c', tenant_id = tid, embedding_dim = d, record_count = n, index_name = index\<rparr>) \<and>
    ready pending quiet c' \<and> db (stream c') = db (stream c)"
proof -
  have law: "store_law serve V" using on by (simp add: online_def)
  let ?rows = "map (\<lambda>e. Bulk (as_bytes (render_row e))) (indexes_of V (db (stream c)))"
  obtain c' where c': "call L ''SKEG.VINDEX.LIST'' [] c = Some (Ok (Array ?rows), c')"
      "ready pending quiet c'" "db (stream c') = db (stream c)"
    using online_call [OF on assms(2) store_lawD(6) [OF law]] by (auto simp: reply_result_def)
  from assms(3) obtain n where "map_of (indexes_of V (db (stream c))) index = Some (d, n)"
    by (auto simp: dim_of_def)
  with find_index_table [OF store_lawD(5) [OF law], of index] have "find_index index ?rows = Ok (d, n)" by simp
  with c'(1) have "vindex_info L index c = Some (Ok (d, n), c')"
    by (simp add: vindex_info_def op_bind_step)
  with c'(2,3) show ?thesis by (simp add: from_connection_def)
qed

text \<open>The arguments of a search, and the candidates a server finds for them.\<close>

definition search_args :: "string \<Rightarrow> u32 list \<Rightarrow> u32 \<Rightarrow> bytes list" where
  "search_args index q n =
     [as_bytes index, as_bytes (show_u32 n), as_bytes (show_u32 DEFAULT_L_SEARCH), encode_vector q]"

lemma search_online:
  assumes on: "online L valid pending quiet db serve V" and "ready pending quiet c"
    and "cs = found_by V (db (stream c)) (search_args index q n)"
  shows "\<exists>c'. search L index q n c =
    Some (Ok (cs, map (\<lambda>x. key_row (keys_of V (db (stream c)) (as_bytes (envelope_key_for (fst x))))) cs), c')"
proof -
  have law: "store_law serve V" using on by (simp add: online_def)
  obtain ps where ps: "list_all2 pair_frames cs ps"
      "serve ''SKEG.VSEARCH'' (search_args index q n) (db (stream c)) =
        (Array (concat (map (\<lambda>(f, g). [f, g]) ps)), db (stream c))"
    using store_lawD(4) [OF law] assms(3) by blast
  obtain c1 where c1: "call L ''SKEG.VSEARCH'' (search_args index q n) c =
        Some (Ok (Array (concat (map (\<lambda>(f, g). [f, g]) ps))), c1)"
      "ready pending quiet c1" "db (stream c1) = db (stream c)"
    using online_call [OF on assms(2) ps(2)] by (auto simp: reply_result_def)
  let ?keys = "map (\<lambda>(i, _). as_bytes (envelope_key_for i)) cs"
  obtain c2 where c2: "call L ''MGET'' ?keys c1 =
      Some (Ok (Array (map (\<lambda>k. key_row (keys_of V (db (stream c)) k)) ?keys)), c2)"
    using online_call [OF on c1(2) store_lawD(3) [OF law, of ?keys]]
    by (auto simp: reply_result_def c1(3) simp del: map_map)
  show ?thesis
    using c1(1) c2 parse_vsearch_pairs [OF ps(1), of L]
    by (auto simp: search_def search_args_def op_bind_step o_def case_prod_unfold)
qed

lemma publish_and_query:
  assumes on: "online L valid pending quiet db serve V"
    and ready: "ready pending quiet (wconn w)"
    and dim: "dim_of V (db (stream (wconn w))) (windex w) = Some (wdim w)"
    and fresh: "\<forall>i. keys_of V (db (stream (wconn w))) (as_bytes (envelope_key_for i)) = None"
    and rs: "\<forall>(i, v, e) \<in> set rs. length v = unat (wdim w) \<and> storable e"
    and q: "length q = unat (wdim w)"
  shows "\<exists>w' t t'. insert_all ext L rs w = Some (Ok (), w') \<and>
    from_connection L (into_connection w') tid (windex w) = Some (Ok t) \<and>
    query_filtered ext L tm t q top_k accept =
      Some (Ok (take (max 1 (unat top_k)) (List.map_filter (record_hit accept (keyed rs))
        (found_by V (db (stream (into_connection w'))) (search_args (windex w) q (oversample top_k))))), t')"
proof -
  have "\<forall>r \<in> set rs. length (fst (snd r)) = unat (wdim w)" using rs by auto
  from insert_all_online [OF on ready this dim, of ext] obtain c where
    c: "insert_all ext L rs w = Some (Ok (), w\<lparr>wconn := c\<rparr>)" "ready pending quiet c"
      "keys_of V (db (stream c)) = keys_of V (db (stream (wconn w))) ++ stored ext (keyed rs)"
      "dim_of V (db (stream c)) (windex w) = Some (wdim w)" using dim by auto
  from from_connection_online [OF on c(2,4), of tid] obtain c1 n where
    c1: "from_connection L c tid (windex w) = Some (Ok \<lparr>source = Owned c1, tenant_id = tid,
        embedding_dim = wdim w, record_count = n, index_name = windex w\<rparr>)"
      "ready pending quiet c1" "db (stream c1) = db (stream c)" by blast
  let ?t = "\<lparr>source = Owned c1, tenant_id = tid, embedding_dim = wdim w, record_count = n, index_name = windex w\<rparr>"
  let ?cs = "found_by V (db (stream c)) (search_args (windex w) q (oversample top_k))"
  have "key_row (keys_of V (db (stream c)) (as_bytes (envelope_key_for (fst x)))) = stored_row ext (keyed rs) x" for x
    using fresh by (simp add: c(3) map_add_def key_row_def stored_row_def split: option.split)
  then obtain c2 where
    c2: "search L (windex w) q (oversample top_k) c1 = Some (Ok (?cs, map (stored_row ext (keyed rs)) ?cs), c2)"
    using search_online [OF on c1(2) refl, of "windex w" q "oversample top_k"] unfolding c1(3) by auto
  have "with_conn L tm (search L (index_name ?t) q (oversample top_k)) (source ?t) =
      Some (Ok (?cs, map (stored_row ext (keyed rs)) ?cs), Owned c2)" using c2 by simp
  moreover have "\<forall>r \<in> set (keyed rs). storable (snd r)" using rs by (auto simp: keyed_def)
  moreover have "of_nat (length q) = embedding_dim ?t" using q by simp
  ultimately have "query_filtered ext L tm ?t q top_k accept = Some (Ok (take (max 1 (unat top_k))
      (List.map_filter (record_hit accept (keyed rs)) ?cs)), ?t\<lparr>source := Owned c2\<rparr>)"
    using published_records_found by blast
  with c(1) c1(1) show ?thesis by (auto simp: into_connection_def)
qed

end
