(* ===== verification/ExchangeSample.thy ===== *)
theory ExchangeSample
  imports Exchange
begin

text \<open>
  A server that keeps the laws of \<open>Exchange\<close>: a list of bindings, and a search that always
  proposes the records 7 and 8 with the score one. Its wire carries a frame as its number in unary, so that
  every frame can be sent; the socket hands out what a read asks for.
\<close>

instance frame :: countable by countable_datatype

section \<open>The wire\<close>

definition unary :: "frame \<Rightarrow> bytes" where
  "unary f = replicate (to_nat f) 1 @ [0]"

definition read_unary :: "bytes \<Rightarrow> (frame \<times> bytes) option" where
  "read_unary b =
     (case dropWhile (\<lambda>x. x \<noteq> 0) b of
        [] \<Rightarrow> None
      | _ # r \<Rightarrow> Some (from_nat (length (takeWhile (\<lambda>x. x \<noteq> 0) b)), r))"

lemma read_unary_frame: "read_unary (unary f @ r) = Some (f, r)"
proof -
  have "dropWhile (\<lambda>x. x \<noteq> (0 :: u8)) (replicate n 1 @ 0 # r) = 0 # r"
    "takeWhile (\<lambda>x. x \<noteq> (0 :: u8)) (replicate n 1 @ 0 # r) = replicate n 1" for n r
    by (induction n) simp_all
  then show ?thesis by (simp add: read_unary_def unary_def)
qed

lemma read_unary_part: "strict_prefix b (unary f) \<Longrightarrow> read_unary b = None"
proof -
  assume "strict_prefix b (unary f)"
  then have "prefix b (replicate (to_nat f) 1)"
    by (auto simp: unary_def strict_prefix_def prefix_snoc)
  then have "\<forall>x \<in> set b. x = 1" using set_mono_prefix [of b] by fastforce
  then have "dropWhile (\<lambda>x. x \<noteq> 0) b = []" by (auto simp: dropWhile_eq_Nil_conv)
  then show ?thesis by (simp only: read_unary_def list.case)
qed

section \<open>The server\<close>

type_synonym sample_db = "(bytes \<times> bytes) list"

definition sample_store :: "sample_db store" where
  "sample_store =
     \<lparr>keys_of = map_of, found_by = (\<lambda>_ _. [(7, 0x3F800000), (8, 0x3F800000)]),
      indexes_of = (\<lambda>D. [(''hansa'', 2, of_nat (length D))])\<rparr>"

definition sample_serve :: "string \<Rightarrow> bytes list \<Rightarrow> sample_db \<Rightarrow> frame \<times> sample_db" where
  "sample_serve cmd args D =
     (if cmd = ''SET'' then
        (case args of [k, x] \<Rightarrow> (Simple ''OK'', (k, x) # D) | _ \<Rightarrow> (Error ''ERR'', D))
      else if cmd = ''SKEG.VSET'' then (Simple ''OK'', D)
      else if cmd = ''MGET'' then (Array (map (\<lambda>k. key_row (map_of D k)) args), D)
      else if cmd = ''SKEG.VSEARCH'' then
        (Array [Integer 7, Double 0x3FF0000000000000, Integer 8, Double 0x3FF0000000000000], D)
      else if cmd = ''SKEG.VINDEX.LIST'' then
        (Array [Bulk (as_bytes (render_row (''hansa'', 2, of_nat (length D))))], D)
      else (Error ''ERR'', D))"

lemma sample_store_law: "store_law sample_serve sample_store"
proof -
  have "f64_value 0x3FF0000000000000 = 1" "f64_finite 0x3FF0000000000000" "\<not> negative64 0x3FF0000000000000"
    by (simp_all add: f64_value_def f64_finite_def negative64_def Let_def power_int_def power_one_over)
  moreover have "f32_value 0x3F800000 = 1" by (simp add: f32_value_def f32_units_def)
  ultimately have "f64_value 0x3FF0000000000000 = f32_value 0x3F800000" by simp
  then have "rounds_to (f64_value 0x3FF0000000000000) 0x3F800000"
    using rounds_to_self [of "0x3F800000"] by (simp add: F32_INF_def)
  with \<open>f64_finite 0x3FF0000000000000\<close> \<open>\<not> negative64 0x3FF0000000000000\<close>
  have one: "score_frame 0x3F800000 (Double 0x3FF0000000000000)"
    unfolding score_frame_def
    by (intro disjI1 exI [of _ "0x3FF0000000000000"] exI [of _ "0x3F800000"]) (simp add: with_sign_def)
  have search: "\<exists>ps. list_all2 pair_frames (found_by sample_store D args) ps \<and>
      sample_serve ''SKEG.VSEARCH'' args D = (Array (concat (map (\<lambda>(f, g). [f, g]) ps)), D)" for D args
    by (intro exI [of _ "[(Integer 7, Double 0x3FF0000000000000), (Integer 8, Double 0x3FF0000000000000)]"])
      (simp add: sample_store_def sample_serve_def pair_frames_def id_frame_def one)
  have dim: "dim_of sample_store D = [''hansa'' \<mapsto> 2]" for D
    by (auto simp: dim_of_def sample_store_def)
  have "plain_name ''hansa''" by (simp add: plain_name_def)
  then show ?thesis unfolding store_law_def dim
    using search by (simp add: sample_store_def sample_serve_def reply_result_def)
qed

record wire =
  wdb :: sample_db
  inbox :: bytes

definition bulk_bytes :: "frame \<Rightarrow> bytes" where
  "bulk_bytes f = (case f of Bulk b \<Rightarrow> b | _ \<Rightarrow> [])"

definition sample_answer :: "frame \<Rightarrow> sample_db \<Rightarrow> frame \<times> sample_db" where
  "sample_answer f D =
     (case f of
        Array (cmd # args) \<Rightarrow> sample_serve (string_of (bulk_bytes cmd)) (map bulk_bytes args) D
      | _ \<Rightarrow> (Error ''ERR'', D))"

definition wire_net :: "(bytes, wire) net" where
  "wire_net =
     \<lparr>dec_new = [],
      dec_decode = (\<lambda>d. case read_unary d of Some (f, r) \<Rightarrow> (Ok (Some f), r) | None \<Rightarrow> (Ok None, d)),
      dec_feed = (\<lambda>b d. d @ b), encode_frame = unary, frame_debug = (\<lambda>_. ''frame''),
      tcp_connect = (\<lambda>_. Ok \<lparr>wdb = [], inbox = []\<rparr>),
      set_read_timeout = (\<lambda>_ s. Ok s), set_write_timeout = (\<lambda>_ s. Ok s), set_nodelay = (\<lambda>_ s. Ok s),
      write_all = (\<lambda>b s. (Ok (),
        case read_unary b of
          Some (f, _) \<Rightarrow> (let (g, D) = sample_answer f (wdb s) in \<lparr>wdb = D, inbox = inbox s @ unary g\<rparr>)
        | None \<Rightarrow> s)),
      tcp_read = (\<lambda>n s. (Ok (take n (inbox s)), s\<lparr>inbox := drop n (inbox s)\<rparr>))\<rparr>"

lemma wire_codec: "codec_law wire_net (\<lambda>_. True) id"
  by (auto simp: codec_law_def wire_net_def read_unary_frame read_unary_part)

lemma wire_delivers:
  "\<exists>chunks. delivers wire_net \<lparr>wdb = D, inbox = b\<rparr> chunks \<lparr>wdb = D, inbox = []\<rparr> \<and> concat chunks = b"
proof (induction b rule: length_induct)
  case (1 b)
  show ?case
  proof (cases "b = []")
    case True
    then show ?thesis by (intro exI [of _ "[]"]) simp
  next
    case False
    then have "length (drop 8192 b) < length b" by simp
    with 1 obtain chunks where
      "delivers wire_net \<lparr>wdb = D, inbox = drop 8192 b\<rparr> chunks \<lparr>wdb = D, inbox = []\<rparr>"
      "concat chunks = drop 8192 b" by blast
    then show ?thesis using False
      by (intro exI [of _ "take 8192 b # chunks"]) (auto intro!: delivers.chunk simp: wire_net_def)
  qed
qed

lemma wire_server: "server_law wire_net (\<lambda>_. True) (\<lambda>s. inbox s = []) wdb sample_serve"
  unfolding server_law_def
proof (intro allI impI)
  fix cmd args and s :: wire
  assume "inbox s = []"
  obtain f D where fD: "sample_serve cmd args (wdb s) = (f, D)" by fastforce
  have "sample_answer (request cmd args) (wdb s) = (f, D)"
    using fD by (simp add: sample_answer_def request_def bulk_str_def bulk_bytes_def o_def)
  then have "write_all wire_net (encode_frame wire_net (request cmd args)) s = (Ok (), \<lparr>wdb = D, inbox = unary f\<rparr>)"
    using read_unary_frame [of "request cmd args" "[]"] \<open>inbox s = []\<close> by (simp add: wire_net_def)
  moreover obtain chunks where "delivers wire_net \<lparr>wdb = D, inbox = unary f\<rparr> chunks \<lparr>wdb = D, inbox = []\<rparr>"
      "concat chunks = unary f" using wire_delivers by blast
  moreover have "encode_frame wire_net = unary" by (simp add: wire_net_def)
  ultimately show "let (reply, D) = sample_serve cmd args (wdb s) in
      \<exists>s1 chunks s2. write_all wire_net (encode_frame wire_net (request cmd args)) s = (Ok (), s1) \<and>
        delivers wire_net s1 chunks s2 \<and> concat chunks = encode_frame wire_net reply \<and>
        True \<and> inbox s2 = [] \<and> wdb s2 = D"
    unfolding fD by (auto intro!: exI)
qed

lemma wire_online: "online wire_net (\<lambda>_. True) id (\<lambda>s. inbox s = []) wdb sample_serve sample_store"
  by (simp add: online_def wire_codec wire_server sample_store_law)

definition sample_writer :: "(bytes, wire) writer" where
  "sample_writer = \<lparr>wconn = \<lparr>stream = \<lparr>wdb = [], inbox = []\<rparr>, decoder = []\<rparr>,
     windex = ''hansa'', wdim = 2\<rparr>"

end
