(* ===== verification/LocationJson.thy ===== *)
theory LocationJson
  imports Location
begin

text \<open>
  Locations as JSON. The code derives \<open>Serialize\<close> and \<open>Deserialize\<close> for \<open>TenantLocation\<close>, with
  the attributes \<open>tag = "kind"\<close>, \<open>rename_all = "lowercase"\<close> and \<open>default\<close>; the derived
  functions and \<open>serde_json\<close> are outside, in the record \<open>location_json\<close> over a type of texts.
  What is documented of them (\<open>serde_law\<close>) is the JSON value a location stands for and the
  location that is read from an object; that a location is read back is then a lemma.
\<close>

datatype json_value =
    JNull
  | JStr string
  | JArr "json_value list"
  | JObj "(string \<times> json_value) list"

record 't location_json =
  location_to_string :: "tenant_location \<Rightarrow> string + 't"
  location_from_str :: "'t \<Rightarrow> string + tenant_location"

section \<open>What is documented\<close>

text \<open>An enum with a tag: the variant in lower case under the tag, then its fields in order.\<close>

fun location_value :: "tenant_location \<Rightarrow> json_value" where
  "location_value (Path p) = JObj [(''kind'', JStr ''path''), (''path'', JStr p)]"
| "location_value (Resp3 ep au) = JObj [(''kind'', JStr ''resp3''), (''endpoint'', JStr ep),
     (''auth'', case au of None \<Rightarrow> JNull | Some (u, p) \<Rightarrow> JArr [JStr u, JStr p])]"
| "location_value (Http u b) = JObj [(''kind'', JStr ''http''), (''base_url'', JStr u),
     (''bearer'', case b of None \<Rightarrow> JNull | Some t \<Rightarrow> JStr t)]"

text \<open>
  Reading looks a field up by its name, wherever it stands, and ignores the others. A field
  with a default may be missing.
\<close>

fun str_field :: "json_value option \<Rightarrow> string option" where
  "str_field (Some (JStr s)) = Some s"
| "str_field _ = None"

fun auth_field :: "json_value option \<Rightarrow> (string \<times> string) option option" where
  "auth_field None = Some None"
| "auth_field (Some JNull) = Some None"
| "auth_field (Some (JArr [JStr u, JStr p])) = Some (Some (u, p))"
| "auth_field _ = None"

fun bearer_field :: "json_value option \<Rightarrow> string option option" where
  "bearer_field None = Some None"
| "bearer_field (Some JNull) = Some None"
| "bearer_field (Some (JStr t)) = Some (Some t)"
| "bearer_field _ = None"

definition location_of :: "(string \<times> json_value) list \<Rightarrow> tenant_location option" where
  "location_of fs =
     Option.bind (str_field (map_of fs ''kind'')) (\<lambda>k.
       if k = ''path'' then map_option Path (str_field (map_of fs ''path''))
       else if k = ''resp3'' then
         Option.bind (str_field (map_of fs ''endpoint'')) (\<lambda>ep.
         map_option (Resp3 ep) (auth_field (map_of fs ''auth'')))
       else if k = ''http'' then
         Option.bind (str_field (map_of fs ''base_url'')) (\<lambda>u.
         map_option (Http u) (bearer_field (map_of fs ''bearer'')))
       else None)"

text \<open>A path that is not UTF-8 cannot be written; an object with a key twice is not covered.\<close>

fun writable_location :: "tenant_location \<Rightarrow> bool" where
  "writable_location (Path p) = utf8_valid p"
| "writable_location _ = True"

definition serde_law :: "'t location_json \<Rightarrow> bool" where
  "serde_law J \<longleftrightarrow>
     (\<exists>print.
        (\<forall>loc. writable_location loc \<longrightarrow> location_to_string J loc = Ok (print (location_value loc))) \<and>
        (\<forall>fs loc. distinct (map fst fs) \<longrightarrow> location_of fs = Some loc \<longrightarrow>
           location_from_str J (print (JObj fs)) = Ok loc))"

section \<open>Locations are read back\<close>

lemma location_of_value: "\<exists>fs. location_value loc = JObj fs \<and> distinct (map fst fs) \<and> location_of fs = Some loc"
  by (cases loc) (auto simp: location_of_def split: option.split)

lemma location_json_roundtrip:
  assumes "serde_law J" and "writable_location loc"
  shows "\<exists>s. location_to_string J loc = Ok s \<and> location_from_str J s = Ok loc"
  using assms location_of_value [of loc] by (metis serde_law_def)

text \<open>What was written before \<open>auth\<close> and \<open>bearer\<close> were there, or without them, is read.\<close>

lemma location_json_defaults:
  "location_of [(''kind'', JStr ''resp3''), (''endpoint'', JStr ep)] = Some (Resp3 ep None)"
  "location_of [(''base_url'', JStr u), (''kind'', JStr ''http'')] = Some (Http u None)"
  by (simp_all add: location_of_def)

text \<open>The values themselves as texts.\<close>

definition value_json :: "json_value location_json" where
  "value_json =
     \<lparr>location_to_string = (\<lambda>loc. Ok (location_value loc)),
      location_from_str = (\<lambda>v. case v of
        JObj fs \<Rightarrow> (case location_of fs of Some loc \<Rightarrow> Ok loc | None \<Rightarrow> Err ''unexpected value'')
      | _ \<Rightarrow> Err ''expected an object'')\<rparr>"

lemma value_json_law: "serde_law value_json"
  unfolding serde_law_def by (intro exI [of _ id]) (simp add: value_json_def)

end
