(* ===== verification/ModuleTests.thy ===== *)
theory ModuleTests
  imports LocationJson Tenant ConnectionProps
begin

text \<open>
  The unit tests of \<open>location.rs\<close> and of \<open>pool.rs\<close>, each as a function that says whether it
  passes. The tests of the pool talk to a server of their own that accepts every connection
  and answers its \<open>HELLO\<close>; they count the connections it saw. The times at which the clock is read are
  arguments: a test passes for all that a run of it can meet. The test of a thread that waits
  (\<open>max_total_blocks_until_released\<close>) is not a computation of one thread and is left out: that
  a waiting call is woken and served is shown of all runs (\<open>pool_wakeups\<close>, \<open>pool_drains\<close>).
\<close>

section \<open>Addresses\<close>

definition parses_bare_path :: bool where
  "parses_bare_path = (parse_location ''/tmp/tenant-1'' = Ok (Path ''/tmp/tenant-1''))"

definition parses_file_url :: bool where
  "parses_file_url =
     (case parse_location ''file:///var/lib/tenant-2'' of Ok (Path _) \<Rightarrow> True | _ \<Rightarrow> False)"

definition parses_resp3_no_auth :: bool where
  "parses_resp3_no_auth =
     (case parse_location ''resp3://example.org:6379'' of
        Ok (Resp3 ep au) \<Rightarrow> ep = ''example.org:6379'' \<and> au = None
      | _ \<Rightarrow> False)"

definition parses_resp3_with_auth :: bool where
  "parses_resp3_with_auth =
     (case parse_location ''resp3://alice:secret@h:6379'' of
        Ok (Resp3 ep au) \<Rightarrow> ep = ''h:6379'' \<and> au = Some (''alice'', ''secret'')
      | _ \<Rightarrow> False)"

definition parses_http :: bool where
  "parses_http = (case parse_location ''https://h:443/'' of Ok (Http _ _) \<Rightarrow> True | _ \<Rightarrow> False)"

definition rejects_unknown_scheme :: bool where
  "rejects_unknown_scheme = (case parse_location ''ftp://x'' of Err (BadLocation _) \<Rightarrow> True | _ \<Rightarrow> False)"

text \<open>Both tests of the JSON form write a location, read it again and compare.\<close>

definition reads_back :: "'t location_json \<Rightarrow> tenant_location \<Rightarrow> bool" where
  "reads_back J loc =
     (case location_to_string J loc of
        Ok s \<Rightarrow> (case location_from_str J s of Ok back \<Rightarrow> loc = back | Err _ \<Rightarrow> False)
      | Err _ \<Rightarrow> False)"

definition json_roundtrip_path :: "'t location_json \<Rightarrow> bool" where
  "json_roundtrip_path J = reads_back J (Path ''/x'')"

definition json_roundtrip_resp3 :: "'t location_json \<Rightarrow> bool" where
  "json_roundtrip_resp3 J = reads_back J (Resp3 ''h:6379'' (Some (''u'', ''p'')))"

section \<open>The pool\<close>

text \<open>
  The thread of \<open>spawn_hello_server\<close> that serves one connection: whatever its first read gives
  (even an error), it writes an empty map; then it reads until the end or an error. A step
  takes the result of a read to the next phase and the bytes written.
\<close>

datatype hello_phase = Accepted | Holding | Gone

definition empty_map :: bytes where
  "empty_map = as_bytes ''%0'' @ [13, 10]"

fun hello_thread :: "hello_phase \<Rightarrow> io_error + bytes \<Rightarrow> hello_phase \<times> bytes" where
  "hello_thread Accepted _ = (Holding, empty_map)"
| "hello_thread Holding (Ok b) = (if b = [] then (Gone, []) else (Holding, []))"
| "hello_thread Holding (Err _) = (Gone, [])"
| "hello_thread Gone _ = (Gone, [])"

text \<open>
  The loop over the incoming connections: one that cannot be accepted is skipped, every other
  is counted and gets such a thread.
\<close>

fun accept_all :: "(io_error + unit) list \<Rightarrow> nat \<Rightarrow> nat \<times> hello_phase list" where
  "accept_all [] counter = (counter, [])"
| "accept_all (Err _ # incoming) counter = accept_all incoming counter"
| "accept_all (Ok _ # incoming) counter =
     (case accept_all incoming (counter + 1) of (n, threads) \<Rightarrow> (n, Accepted # threads))"

text \<open>
  What the network and the codec have to do with it: connecting to its address succeeds, what
  the thread writes for the greeting is delivered in some chunks, and the codec reads an
  empty map from it, as the protocol says. On the other address nobody listens.
\<close>

definition reads_empty_map :: "('d, 's) net \<Rightarrow> bool" where
  "reads_empty_map L \<longleftrightarrow>
     (\<exists>valid pending. codec_law L valid pending \<and> valid (Map []) \<and> encode_frame L (Map []) = empty_map)"

definition hello_server :: "('d, 's) net \<Rightarrow> string \<Rightarrow> bool" where
  "hello_server L ep \<longleftrightarrow> reads_empty_map L \<and>
     (\<exists>s s1 s2 s3 s4 chunks s5.
        tcp_connect L ep = Ok s \<and> set_read_timeout L 5 s = Ok s1 \<and> set_write_timeout L 5 s1 = Ok s2 \<and>
        set_nodelay L True s2 = Ok s3 \<and>
        write_all L (encode_frame L (hello_request None)) s3 = (Ok (), s4) \<and> delivers L s4 chunks s5 \<and>
        concat chunks = snd (hello_thread Accepted (Ok (encode_frame L (hello_request None)))))"

definition no_server :: "('d, 's) net \<Rightarrow> string \<Rightarrow> bool" where
  "no_server L ep \<longleftrightarrow> (\<exists>e. tcp_connect L ep = Err e)"

text \<open>
  A pool with the connections its server saw. \<open>acquire().unwrap()\<close> is \<open>None\<close> on an error and
  when it has to wait; dropping a guard is the code's \<open>Drop\<close>.
\<close>

type_synonym ('d, 's) watched = "('d, 's) pool \<times> nat"

definition take_one ::
  "('d, 's) net \<Rightarrow> nat \<Rightarrow> ('d, 's) watched \<Rightarrow> (('d, 's) connection pooled_connection \<times> ('d, 's) watched) option"
where
  "take_one L now w =
     (case acquire L now (fst w) of
        Some (Ok g, p) \<Rightarrow>
          Some (g, p,
            case fst (try_acquire now (config (fst w)) (pstate (fst w))) of
              Reserve \<Rightarrow> fst (accept_all [Ok ()] (snd w))
            | _ \<Rightarrow> snd w)
      | _ \<Rightarrow> None)"

definition let_go ::
  "nat \<Rightarrow> ('d, 's) connection pooled_connection \<Rightarrow> ('d, 's) watched \<Rightarrow> ('d, 's) watched option"
where
  "let_go now g w =
     map_option (\<lambda>st. ((fst w)\<lparr>pstate := st\<rparr>, snd w)) (drop_guard now (config (fst w)) g (pstate (fst w)))"

definition in_use_is :: "nat \<Rightarrow> ('d, 's) watched \<Rightarrow> bool" where
  "in_use_is n w \<longleftrightarrow> in_use_count (fst w) = n"

definition idle_is :: "nat \<Rightarrow> ('d, 's) watched \<Rightarrow> bool" where
  "idle_is n w \<longleftrightarrow> idle_count (fst w) = n"

definition holds :: "'w option \<Rightarrow> ('w \<Rightarrow> bool) \<Rightarrow> bool" where
  "holds m P = (case m of None \<Rightarrow> False | Some w \<Rightarrow> P w)"

definition acquire_and_return_reuses_connection :: "('d, 's) net \<Rightarrow> string \<Rightarrow> nat \<Rightarrow> nat \<Rightarrow> bool" where
  "acquire_and_return_reuses_connection L ep t1 t2 =
     holds (take_one L 0 (pool_new ep, 0)) (\<lambda>(c1, w).
       in_use_is 1 w \<and> idle_is 0 w \<and>
     holds (let_go t1 c1 w) (\<lambda>w.
       in_use_is 0 w \<and> idle_is 1 w \<and>
     holds (take_one L t2 w) (\<lambda>(c2, w).
     holds (let_go t2 c2 w) (\<lambda>w. snd w = 1))))"

definition small_config :: "nat \<Rightarrow> nat \<Rightarrow> nat \<Rightarrow> pool_config" where
  "small_config mi mt ns = \<lparr>max_idle = mi, max_total = mt, idle_timeout = ns\<rparr>"

definition max_idle_caps_returned_count :: "('d, 's) net \<Rightarrow> string \<Rightarrow> nat \<Rightarrow> bool" where
  "max_idle_caps_returned_count L ep t =
     holds (take_one L 0 (pool_with_config ep None (small_config 1 4 60000000000), 0)) (\<lambda>(a, w).
     holds (take_one L 0 w) (\<lambda>(b, w).
     holds (take_one L 0 w) (\<lambda>(c, w).
     holds (let_go t a w) (\<lambda>w.
     holds (let_go t b w) (\<lambda>w.
     holds (let_go t c w) (\<lambda>w. idle_is 1 w \<and> in_use_is 0 w))))))"

definition discard_does_not_return_to_pool :: "('d, 's) net \<Rightarrow> string \<Rightarrow> nat \<Rightarrow> bool" where
  "discard_does_not_return_to_pool L ep t =
     holds (take_one L 0 (pool_new ep, 0)) (\<lambda>(c, w).
     holds (let_go t (discard c) w) (\<lambda>w.
       idle_is 0 w \<and> in_use_is 0 w \<and>
     holds (take_one L t w) (\<lambda>(c2, w). snd w = 2)))"

definition idle_timeout_recycles_stale_connection :: "('d, 's) net \<Rightarrow> string \<Rightarrow> nat \<Rightarrow> nat \<Rightarrow> bool" where
  "idle_timeout_recycles_stale_connection L ep t1 t2 =
     holds (take_one L 0 (pool_with_config ep None (small_config 4 4 10000000), 0)) (\<lambda>(c, w).
     holds (let_go t1 c w) (\<lambda>w.
       idle_is 1 w \<and>
     holds (take_one L t2 w) (\<lambda>(c, w). snd w = 2)))"

definition connect_failure_releases_reservation :: "('d, 's) net \<Rightarrow> bool" where
  "connect_failure_releases_reservation L =
     (case acquire L 0 (pool_new ''127.0.0.1:1'') of
        Some (r, p) \<Rightarrow> is_err r \<and> in_use_count p = 0
      | None \<Rightarrow> False)"

text \<open>The tests of each module; the one that sleeps does so for at least 30 ms.\<close>

definition location_suite :: "'t location_json \<Rightarrow> bool" where
  "location_suite J \<longleftrightarrow> parses_bare_path \<and> parses_file_url \<and> parses_resp3_no_auth \<and>
     parses_resp3_with_auth \<and> parses_http \<and> rejects_unknown_scheme \<and>
     json_roundtrip_path J \<and> json_roundtrip_resp3 J"

definition pool_suite :: "('d, 's) net \<Rightarrow> string \<Rightarrow> nat \<Rightarrow> nat \<Rightarrow> bool" where
  "pool_suite L ep t1 t2 \<longleftrightarrow>
     acquire_and_return_reuses_connection L ep t1 t2 \<and> max_idle_caps_returned_count L ep t1 \<and>
     discard_does_not_return_to_pool L ep t1 \<and>
     (30000000 \<le> t2 - t1 \<longrightarrow> idle_timeout_recycles_stale_connection L ep t1 t2) \<and>
     connect_failure_releases_reservation L"

section \<open>They pass\<close>

lemma address_tests:
  "parses_bare_path" "parses_file_url" "parses_resp3_no_auth" "parses_resp3_with_auth" "parses_http"
  "rejects_unknown_scheme"
proof -
  show "parses_bare_path"
    by (simp add: parses_bare_path_def parse_location_bare sublist_Cons_right)
  show "parses_file_url" "parses_http"
    by (simp_all add: parses_file_url_def parses_http_def parse_location_def strip_prefix_def)
  show "parses_resp3_no_auth"
    using address_parses [of "''resp3://example.org:6379''" "Resp3 ''example.org:6379'' None"]
    by (simp add: parses_resp3_no_auth_def address_intros)
  show "parses_resp3_with_auth"
    using parse_render_location [of "Resp3 ''h:6379'' (Some (''alice'', ''secret''))"]
    by (simp add: parses_resp3_with_auth_def)
  show "rejects_unknown_scheme"
    by (simp add: rejects_unknown_scheme_def parse_location_def strip_prefix_def contains_def sublist_Cons_right)
qed

lemma location_json_tests:
  assumes "serde_law J"
  shows "json_roundtrip_path J" "json_roundtrip_resp3 J"
proof -
  have "writable_location (Path ''/x'')"
    by (simp add: utf8_valid_ascii word_less_nat_alt unat_of_char)
  from location_json_roundtrip [OF assms this] show "json_roundtrip_path J"
    by (auto simp: json_roundtrip_path_def reads_back_def)
  show "json_roundtrip_resp3 J"
    using location_json_roundtrip [OF assms, of "Resp3 ''h:6379'' (Some (''u'', ''p''))"]
    by (auto simp: json_roundtrip_resp3_def reads_back_def)
qed

lemma accept_all_counts:
  "accept_all incoming n =
     (n + length (filter (\<lambda>s. \<not> is_err s) incoming), replicate (length (filter (\<lambda>s. \<not> is_err s) incoming)) Accepted)"
  by (induction incoming n rule: accept_all.induct) simp_all

lemmas pool_test_defs = take_one_def let_go_def in_use_is_def idle_is_def holds_def acquire_def
  try_acquire_def drop_guard_def discard_def in_use_count_def idle_count_def leave_def
  pool_new_def pool_with_config_def default_config_def small_config_def

lemma hello_server_connects:
  assumes "hello_server L ep"
  obtains c where "connect L ep None = Some (Ok c)"
proof -
  obtain valid pending where law: "codec_law L valid pending" "valid (Map [])" "encode_frame L (Map []) = empty_map"
    using assms by (auto simp: hello_server_def reads_empty_map_def)
  from assms law(3) obtain s s1 s2 s3 s4 chunks s5 where
    "tcp_connect L ep = Ok s" "set_read_timeout L 5 s = Ok s1" "set_write_timeout L 5 s1 = Ok s2"
    "set_nodelay L True s2 = Ok s3" "write_all L (encode_frame L (hello_request None)) s3 = (Ok (), s4)"
    "delivers L s4 chunks s5" "concat chunks = encode_frame L (Map [])"
    by (auto simp: hello_server_def)
  from handshake [OF law(1,2) this] that show thesis by auto
qed

lemma pool_tests:
  assumes "hello_server L ep" and "no_server L ''127.0.0.1:1''"
    and "t1 \<le> t2" and "t2 - t1 < 60000000000"
  shows "acquire_and_return_reuses_connection L ep t1 t2" "max_idle_caps_returned_count L ep t1"
    "discard_does_not_return_to_pool L ep t1"
    "30000000 \<le> t2 - t1 \<Longrightarrow> idle_timeout_recycles_stale_connection L ep t1 t2"
    "connect_failure_releases_reservation L"
proof -
  obtain c where c: "connect L ep None = Some (Ok c)" using hello_server_connects [OF assms(1)] .
  show "acquire_and_return_reuses_connection L ep t1 t2"
    using c assms(3,4) by (simp add: acquire_and_return_reuses_connection_def pool_test_defs)
  show "max_idle_caps_returned_count L ep t1"
    using c by (simp add: max_idle_caps_returned_count_def pool_test_defs)
  show "discard_does_not_return_to_pool L ep t1"
    using c by (simp add: discard_does_not_return_to_pool_def pool_test_defs)
  show "30000000 \<le> t2 - t1 \<Longrightarrow> idle_timeout_recycles_stale_connection L ep t1 t2"
    using c by (simp add: idle_timeout_recycles_stale_connection_def pool_test_defs)
  show "connect_failure_releases_reservation L"
    using assms(2) by (auto simp: connect_failure_releases_reservation_def pool_test_defs connect_def
        connect_failed_def no_server_def pool_new_def)
qed

section \<open>The theorem\<close>

text \<open>A network with the thread at the other end of every connection, except on one port.\<close>

definition hello_net :: "(bytes, hello_phase \<times> bytes) net" where
  "hello_net =
     \<lparr>dec_new = [],
      dec_decode = (\<lambda>d. if prefix empty_map d then (Ok (Some (Map [])), drop 4 d) else (Ok None, d)),
      dec_feed = (\<lambda>b d. d @ b),
      encode_frame = (\<lambda>f. if f = Map [] then empty_map else [0]), frame_debug = (\<lambda>_. ''frame''),
      tcp_connect = (\<lambda>ep. if ep = ''127.0.0.1:1'' then Err (io_other ''refused'') else Ok (Accepted, [])),
      set_read_timeout = (\<lambda>_. Ok), set_write_timeout = (\<lambda>_. Ok), set_nodelay = (\<lambda>_. Ok),
      write_all = (\<lambda>b (ph, out). (Ok (), (fst (hello_thread ph (Ok b)), out @ snd (hello_thread ph (Ok b))))),
      tcp_read = (\<lambda>n (ph, out). (Ok (take n out), (ph, drop n out)))\<rparr>"

lemma length_empty_map: "length empty_map = 4"
  by (simp add: empty_map_def)

lemma hello_net_servers: "hello_server hello_net ''h:1''" "no_server hello_net ''127.0.0.1:1''"
proof -
  have "dec_decode hello_net d = (Ok None, d)" if "strict_prefix d empty_map" for d
    using that by (auto simp: hello_net_def strict_prefix_def prefix_order.antisym)
  moreover have "dec_decode hello_net (empty_map @ r) = (Ok (Some (Map [])), r)" for r
    by (simp add: hello_net_def length_empty_map)
  ultimately have "codec_law hello_net (\<lambda>f. f = Map []) id"
    by (auto simp: codec_law_def) (simp_all add: hello_net_def)
  then have "reads_empty_map hello_net"
    unfolding reads_empty_map_def by (intro exI [of _ "\<lambda>f. f = Map []"] exI [of _ id]) (simp add: hello_net_def)
  moreover have "delivers hello_net (Holding, empty_map) [empty_map] (Holding, [])"
    by (auto intro!: delivers.chunk simp: hello_net_def length_empty_map) (simp add: empty_map_def)
  ultimately show "hello_server hello_net ''h:1''"
    unfolding hello_server_def
    by (intro conjI exI [of _ "(Accepted, [])"] exI [of _ "(Holding, empty_map)"] exI [of _ "[empty_map]"]
        exI [of _ "(Holding, [])"]) (auto simp: hello_net_def)
  show "no_server hello_net ''127.0.0.1:1''" by (simp add: no_server_def hello_net_def)
qed

lemma module_tests:
  assumes "serde_law J" and "hello_server L ep" and "no_server L ''127.0.0.1:1''"
    and "t1 \<le> t2" and "t2 - t1 < 60000000000"
  shows "location_suite J \<and> pool_suite L ep t1 t2"
  using address_tests location_json_tests [OF assms(1)] pool_tests [OF assms(2-)] by (simp add: location_suite_def pool_suite_def)

end
