(* ===== verification/Fs.thy ===== *)
theory Fs
  imports NetError
begin

text \<open>
  The part of \<open>std::fs\<close> and \<open>std::path\<close> the HTTP crate uses. A path is the list of its
  components, ordinary names all of them; a file system lists its entries in the order a
  directory is read in. A node is a file with its modification time (nanoseconds since the
  epoch, where there is one), a directory with its own metadata, something whose metadata can
  be had but which cannot be opened, or something of which even that is refused. Reading a
  directory may fail after some of its entries. An entry is a node or a symbolic link, which
  has metadata of its own and leads to a node or nowhere.

  Two things are not followed: the target of a link is held in the link, so no two entries
  lead to the same file; and the metadata of a directory stays as it is when an entry is made
  in it.
\<close>

type_synonym path = "string list"

record metadata =
  len :: u64
  modified :: "int option"

datatype node =
    File bytes "int option"
  | Dir metadata "(nat \<times> io_error) option"
  | Closed metadata io_error
  | Unreadable io_error

datatype dir_entry =
    Plain node
  | Link metadata "node option"

type_synonym fs = "(path \<times> dir_entry) list"

definition not_found :: io_error where
  "not_found = \<lparr>kind = NotFound, io_text = ''No such file or directory (os error 2)''\<rparr>"

definition is_a_directory :: io_error where
  "is_a_directory = \<lparr>kind = Kind 21, io_text = ''Is a directory (os error 21)''\<rparr>"

definition not_a_directory :: io_error where
  "not_a_directory = \<lparr>kind = Kind 20, io_text = ''Not a directory (os error 20)''\<rparr>"

definition already_exists :: io_error where
  "already_exists = \<lparr>kind = Kind 17, io_text = ''File exists (os error 17)''\<rparr>"

text \<open>The entry at a path, and the node it leads to; the root is always a directory.\<close>

definition fs_entry :: "fs \<Rightarrow> path \<Rightarrow> dir_entry option" where
  "fs_entry fs p =
     (if p = [] then Some (Plain (Dir \<lparr>len = 0, modified = None\<rparr> None)) else map_of fs p)"

fun follow :: "dir_entry \<Rightarrow> node option" where
  "follow (Plain n) = Some n"
| "follow (Link _ target) = target"

definition fs_node :: "fs \<Rightarrow> path \<Rightarrow> node option" where
  "fs_node fs p = Option.bind (fs_entry fs p) follow"

definition fs_read :: "fs \<Rightarrow> path \<Rightarrow> io_error + bytes" where
  "fs_read fs p =
     (case fs_node fs p of
        None \<Rightarrow> Err not_found
      | Some (File b _) \<Rightarrow> Ok b
      | Some (Dir _ _) \<Rightarrow> Err is_a_directory
      | Some (Closed _ e) \<Rightarrow> Err e
      | Some (Unreadable e) \<Rightarrow> Err e)"

text \<open>
  \<open>fs::metadata\<close> follows a link, \<open>DirEntry::metadata\<close> does not; \<open>Path::exists\<close> is whether the
  former succeeds.
\<close>

fun node_metadata :: "node \<Rightarrow> io_error + metadata" where
  "node_metadata (File b m) = Ok \<lparr>len = of_nat (length b), modified = m\<rparr>"
| "node_metadata (Dir meta _) = Ok meta"
| "node_metadata (Closed meta _) = Ok meta"
| "node_metadata (Unreadable e) = Err e"

definition fs_metadata :: "fs \<Rightarrow> path \<Rightarrow> io_error + metadata" where
  "fs_metadata fs p = (case fs_node fs p of None \<Rightarrow> Err not_found | Some n \<Rightarrow> node_metadata n)"

definition entry_metadata :: "fs \<Rightarrow> path \<Rightarrow> io_error + metadata" where
  "entry_metadata fs p =
     (case fs_entry fs p of
        None \<Rightarrow> Err not_found
      | Some (Plain n) \<Rightarrow> node_metadata n
      | Some (Link meta _) \<Rightarrow> Ok meta)"

definition fs_exists :: "fs \<Rightarrow> path \<Rightarrow> bool" where
  "fs_exists fs p = (case fs_metadata fs p of Ok _ \<Rightarrow> True | Err _ \<Rightarrow> False)"

text \<open>The names in a directory, up to an error in the middle.\<close>

definition child_of :: "path \<Rightarrow> path \<Rightarrow> string option" where
  "child_of p q = (if q \<noteq> [] \<and> butlast q = p then Some (last q) else None)"

definition names_in :: "fs \<Rightarrow> path \<Rightarrow> string list" where
  "names_in fs p = List.map_filter (\<lambda>(q, _). child_of p q) fs"

fun listing :: "(nat \<times> io_error) option \<Rightarrow> string list \<Rightarrow> (io_error + string) list" where
  "listing None names = map Ok names"
| "listing (Some (k, e)) names = map Ok (take k names) @ [Err e]"

definition fs_read_dir :: "fs \<Rightarrow> path \<Rightarrow> io_error + (io_error + string) list" where
  "fs_read_dir fs p =
     (case fs_node fs p of
        None \<Rightarrow> Err not_found
      | Some (Dir _ fault) \<Rightarrow> Ok (listing fault (names_in fs p))
      | Some (File _ _) \<Rightarrow> Err not_a_directory
      | Some (Closed _ e) \<Rightarrow> Err e
      | Some (Unreadable e) \<Rightarrow> Err e)"

text \<open>Changes: an entry is put at a path, or taken away.\<close>

definition fs_put :: "path \<Rightarrow> dir_entry \<Rightarrow> fs \<Rightarrow> fs" where
  "fs_put p n fs = (p, n) # filter (\<lambda>e. fst e \<noteq> p) fs"

definition fs_del :: "path \<Rightarrow> fs \<Rightarrow> fs" where
  "fs_del p fs = filter (\<lambda>e. fst e \<noteq> p) fs"

text \<open>
  \<open>create_dir_all\<close>: the missing directories on the way to a path, from the root down; \<open>dm\<close> is
  the metadata the system gives them.
\<close>

fun make_dirs :: "metadata \<Rightarrow> path \<Rightarrow> path \<Rightarrow> fs \<Rightarrow> (io_error + unit) \<times> fs" where
  "make_dirs dm done [] fs = (Ok (), fs)"
| "make_dirs dm done (c # cs) fs =
     (case fs_entry fs (done @ [c]) of
        None \<Rightarrow> make_dirs dm (done @ [c]) cs (fs_put (done @ [c]) (Plain (Dir dm None)) fs)
      | Some entry \<Rightarrow>
          (case follow entry of
             Some (Dir _ _) \<Rightarrow> make_dirs dm (done @ [c]) cs fs
           | Some (File _ _) \<Rightarrow> (Err (if cs = [] then already_exists else not_a_directory), fs)
           | Some (Closed _ e) \<Rightarrow> (Err e, fs)
           | Some (Unreadable e) \<Rightarrow> (Err e, fs)
           | None \<Rightarrow> (Err already_exists, fs)))"

definition create_dir_all :: "metadata \<Rightarrow> path \<Rightarrow> fs \<Rightarrow> (io_error + unit) \<times> fs" where
  "create_dir_all dm p fs = make_dirs dm [] p fs"

text \<open>
  \<open>write\<close> creates or truncates the file, the one a link leads to, and writes all the bytes;
  \<open>now\<close> is its new time.
\<close>

fun overwrite :: "node \<Rightarrow> dir_entry option \<Rightarrow> dir_entry" where
  "overwrite n (Some (Link meta _)) = Link meta (Some n)"
| "overwrite n _ = Plain n"

definition fs_write :: "int option \<Rightarrow> path \<Rightarrow> bytes \<Rightarrow> fs \<Rightarrow> (io_error + unit) \<times> fs" where
  "fs_write now p b fs =
     (case fs_node fs p of
        Some (Dir _ _) \<Rightarrow> (Err is_a_directory, fs)
      | Some (Closed _ e) \<Rightarrow> (Err e, fs)
      | Some (Unreadable e) \<Rightarrow> (Err e, fs)
      | _ \<Rightarrow>
          (case fs_node fs (butlast p) of
             Some (Dir _ _) \<Rightarrow> (Ok (), fs_put p (overwrite (File b now) (fs_entry fs p)) fs)
           | _ \<Rightarrow> (Err not_found, fs)))"

text \<open>\<open>rename\<close> moves an entry, a link as it is.\<close>

definition fs_rename :: "path \<Rightarrow> path \<Rightarrow> fs \<Rightarrow> (io_error + unit) \<times> fs" where
  "fs_rename p q fs =
     (case fs_entry fs p of
        None \<Rightarrow> (Err not_found, fs)
      | Some n \<Rightarrow>
          (case fs_entry fs q of
             Some (Plain (Dir _ _)) \<Rightarrow> (Err is_a_directory, fs)
           | Some (Plain (Unreadable e)) \<Rightarrow> (Err e, fs)
           | _ \<Rightarrow> (Ok (), fs_put q n (fs_del p fs))))"

section \<open>Paths\<close>

text \<open>\<open>file_stem\<close> and \<open>extension\<close>: around the last dot, unless it is the first character.\<close>

definition split_name :: "string \<Rightarrow> string \<times> string option" where
  "split_name n =
     (case rfind CHR ''.'' n of
        None \<Rightarrow> (n, None)
      | Some i \<Rightarrow> if i = 0 then (n, None) else (take i n, Some (drop (i + 1) n)))"

definition path_parent :: "path \<Rightarrow> path option" where
  "path_parent p = (if p = [] then None else Some (butlast p))"

definition path_extension :: "path \<Rightarrow> string option" where
  "path_extension p = (if p = [] then None else snd (split_name (last p)))"

definition path_with_extension :: "string \<Rightarrow> path \<Rightarrow> path" where
  "path_with_extension ext p =
     (if p = [] then []
      else butlast p @ [fst (split_name (last p)) @ (if ext = [] then [] else CHR ''.'' # ext)])"

section \<open>Lemmas\<close>

lemma fs_entry_put [simp]:
  "p \<noteq> [] \<Longrightarrow> fs_entry (fs_put p n fs) q = (if q = p then Some n else fs_entry fs q)"
  by (induction fs) (auto simp: fs_entry_def fs_put_def)

lemma fs_entry_del [simp]:
  "fs_entry (fs_del p fs) q = (if q = p \<and> p \<noteq> [] then None else fs_entry fs q)"
  by (induction fs) (auto simp: fs_entry_def fs_del_def)

lemma fs_node_put [simp]:
  "p \<noteq> [] \<Longrightarrow> fs_node (fs_put p n fs) q = (if q = p then follow n else fs_node fs q)"
  by (simp add: fs_node_def)

lemma fs_node_del [simp]:
  "fs_node (fs_del p fs) q = (if q = p \<and> p \<noteq> [] then None else fs_node fs q)"
  by (simp add: fs_node_def)

lemma fs_node_no_entry: "fs_entry fs p = None \<Longrightarrow> fs_node fs p = None"
  by (simp add: fs_node_def)

lemma fs_node_entry: "fs_entry fs p = Some e \<Longrightarrow> fs_node fs p = follow e"
  by (simp add: fs_node_def)

lemma follow_overwrite [simp]: "follow (overwrite n e) = Some n"
  by (induction n e rule: overwrite.induct) simp_all

lemma overwrite_again [simp]: "overwrite n (Some (overwrite m e)) = overwrite n e"
  by (induction m e rule: overwrite.induct) simp_all

lemma node_metadata_refused: "is_err (node_metadata n) \<longleftrightarrow> (\<exists>e. n = Unreadable e)"
  by (cases n) simp_all

lemma make_dirs_files:
  "make_dirs dm pre cs fs = (r, fs') \<Longrightarrow> fs_node fs p = Some (File b m) \<Longrightarrow> fs_node fs' p = Some (File b m)"
proof (induction dm pre cs fs rule: make_dirs.induct)
  case (2 dm pre c cs fs)
  then show ?case
    by (cases "p = pre @ [c]") (auto simp: fs_node_no_entry split: option.splits node.splits)
qed simp

lemma make_dirs_same:
  "make_dirs dm pre cs fs = (r, fs') \<Longrightarrow> \<forall>k \<le> length cs. p \<noteq> pre @ take k cs \<Longrightarrow>
   fs_entry fs' p = fs_entry fs p"
proof (induction dm pre cs fs rule: make_dirs.induct)
  case (2 dm pre c cs fs)
  have "p \<noteq> pre @ [c]" using "2.prems"(2) [rule_format, of 1] by simp
  moreover have "\<forall>k \<le> length cs. p \<noteq> (pre @ [c]) @ take k cs"
  proof (intro allI impI)
    fix k assume "k \<le> length cs"
    then show "p \<noteq> (pre @ [c]) @ take k cs" using "2.prems"(2) [rule_format, of "Suc k"] by simp
  qed
  ultimately show ?case using 2 by (auto split: option.splits node.splits)
qed simp

lemma create_dir_all_entry:
  assumes "create_dir_all dm p fs = (r, fs')" and "length p < length q"
  shows "fs_entry fs' q = fs_entry fs q"
proof (rule make_dirs_same)
  show "make_dirs dm [] p fs = (r, fs')" using assms(1) by (simp add: create_dir_all_def)
  show "\<forall>k \<le> length p. q \<noteq> [] @ take k p"
  proof (intro allI impI notI)
    fix k assume "q = [] @ take k p"
    then have "length q \<le> length p" by simp
    then show False using assms(2) by simp
  qed
qed

lemma create_dir_all_other:
  "create_dir_all dm p fs = (r, fs') \<Longrightarrow> length p < length q \<Longrightarrow> fs_node fs' q = fs_node fs q"
  unfolding fs_node_def by (simp only: create_dir_all_entry)

lemma make_dirs_Ok_dir:
  "make_dirs dm pre cs fs = (Ok (), fs') \<Longrightarrow> \<exists>m f. fs_node fs pre = Some (Dir m f) \<Longrightarrow>
   \<exists>m f. fs_node fs' (pre @ cs) = Some (Dir m f)"
proof (induction dm pre cs fs rule: make_dirs.induct)
  case (2 dm pre c cs fs)
  then show ?case by (auto simp: fs_node_entry split: option.splits node.splits)
qed simp

lemma create_dir_all_dir: "create_dir_all dm p fs = (Ok (), fs') \<Longrightarrow> \<exists>m f. fs_node fs' p = Some (Dir m f)"
  using make_dirs_Ok_dir [of dm "[]" p fs fs'] by (simp add: create_dir_all_def fs_node_def fs_entry_def)

lemma in_names_in: "n \<in> set (names_in fs p) \<longleftrightarrow> fs_entry fs (p @ [n]) \<noteq> None"
proof -
  have "n \<in> set (names_in fs p) \<longleftrightarrow> p @ [n] \<in> fst ` set fs"
    unfolding names_in_def
  proof (induction fs)
    case (Cons e fs)
    then show ?case
      by (cases e) (auto simp: map_filter_simps child_of_def snoc_eq_iff_butlast split: option.splits if_splits)
  qed (simp add: map_filter_simps)
  then show ?thesis by (simp add: fs_entry_def map_of_eq_None_iff)
qed

lemma listing_names: "listing fault names = map Ok ns \<Longrightarrow> ns = names"
proof (induction fault names rule: listing.induct)
  case (1 names)
  then show ?case by (simp add: inj_map_eq_map [OF inj_Inr])
next
  case (2 k e names)
  from arg_cong [OF this, of set] show ?case by auto
qed

end
