(* ===== verification/SagaServer.thy ===== *)
theory SagaServer
  imports Fs "HOL-Library.List_Lexorder"
begin

text \<open>
  The saga server (\<open>server.rs\<close>) and the rows of its index (\<open>index.rs\<close>): routing, the file,
  index and member responses, and the accept loop. \<open>tiny_http\<close> hands the server a request
  and sends the response it is given, which may fail: that is the argument \<open>send\<close>
  (\<open>req.respond\<close>). \<open>serde_json\<close> is the argument \<open>json\<close>. A handler reads the file system at two
  moments, for what it finds and for what it then looks up of it, so it has two file systems:
  they are the same when nobody writes in between. Its result is the response it has sent.
\<close>

section \<open>Requests and responses\<close>

datatype http_method = Get | Head | OtherMethod string

record request =
  meth :: http_method
  url :: string

record response =
  status :: nat
  headers :: "(string \<times> string) list"
  body :: bytes

definition empty_response :: "nat \<Rightarrow> response" where
  "empty_response code = \<lparr>status = code, headers = [], body = []\<rparr>"

definition data_response :: "bytes \<Rightarrow> (string \<times> string) list \<Rightarrow> response" where
  "data_response b hs = \<lparr>status = 200, headers = hs, body = b\<rparr>"

type_synonym sending = "response \<Rightarrow> io_error + unit"

definition respond_with :: "sending \<Rightarrow> response \<Rightarrow> net_error + response" where
  "respond_with send r = res_bind (map_err Io (send r)) (\<lambda>_. Ok r)"

record saga_index_entry =
  tenant_id_hex :: string
  entry_bytes :: u64
  last_modified :: i64

definition mtime_secs :: "metadata \<Rightarrow> i64" where
  "mtime_secs m =
     (case modified m of
        None \<Rightarrow> 0
      | Some t \<Rightarrow> if t < 0 then 0 else of_int (t div 1000000000))"

definition show_i64 :: "i64 \<Rightarrow> string" where
  "show_i64 w = show_int (sint w)"

section \<open>The handlers\<close>

definition all_hex :: "string \<Rightarrow> bool" where
  "all_hex s = (\<forall>c \<in> set s. is_ascii_hexdigit c)"

definition file_headers :: "nat \<Rightarrow> i64 \<Rightarrow> (string \<times> string) list" where
  "file_headers n t =
     [(''Content-Type'', ''application/octet-stream''),
      (''Last-Modified'', show_i64 t),
      (''ETag'', [CHR 0x22] @ show_nat n @ ''-'' @ show_i64 t @ [CHR 0x22])]"

definition respond_file ::
  "sending \<Rightarrow> fs \<Rightarrow> fs \<Rightarrow> path \<Rightarrow> string \<Rightarrow> bool \<Rightarrow> net_error + response"
where
  "respond_file send fs1 fs2 saga_dir url_path head_only =
     (let file_name = drop (length ''/sagas/'') url_path in
      if CHR ''/'' \<in> set file_name \<or> contains ''..'' file_name then respond_with send (empty_response 400)
      else
        (let p = saga_dir @ [file_name] in
         case fs_read fs1 p of
           Err e \<Rightarrow> if kind e = NotFound then respond_with send (empty_response 404) else Err (Io e)
         | Ok b \<Rightarrow>
             res_bind (map_err Io (fs_metadata fs2 p)) (\<lambda>meta.
               let hs = file_headers (length b) (mtime_secs meta) in
               respond_with send (if head_only
                   then \<lparr>status = 200, headers = hs @ [(''Content-Length'', show_nat (length b))], body = []\<rparr>
                   else data_response b hs))))"

text \<open>The tenant id a file name of the directory stands for.\<close>

definition index_hex :: "string \<Rightarrow> string option" where
  "index_hex name =
     (if \<not> utf8_valid name then None
      else if \<not> suffix ''.saga'' name then None
      else
        (let hex = take (length name - 5) name in
         if length hex \<noteq> 32 \<or> \<not> all_hex hex then None else Some hex))"

fun index_entries :: "fs \<Rightarrow> path \<Rightarrow> (io_error + string) list \<Rightarrow> net_error + saga_index_entry list" where
  "index_entries fs saga_dir [] = Ok []"
| "index_entries fs saga_dir (Err e # items) = Err (Io e)"
| "index_entries fs saga_dir (Ok name # items) =
     (case index_hex name of
        None \<Rightarrow> index_entries fs saga_dir items
      | Some hex \<Rightarrow>
          res_bind (map_err Io (entry_metadata fs (saga_dir @ [name]))) (\<lambda>meta.
          res_bind (index_entries fs saga_dir items) (\<lambda>entries.
            Ok (\<lparr>tenant_id_hex = hex, entry_bytes = len meta, last_modified = mtime_secs meta\<rparr> # entries))))"

definition saga_index :: "fs \<Rightarrow> fs \<Rightarrow> path \<Rightarrow> net_error + saga_index_entry list" where
  "saga_index fs1 fs2 saga_dir =
     res_bind
       (if fs_exists fs1 saga_dir
        then res_bind (map_err Io (fs_read_dir fs1 saga_dir)) (index_entries fs2 saga_dir)
        else Ok [])
       (\<lambda>entries. Ok (sort_key (\<lambda>e. as_bytes (tenant_id_hex e)) entries))"

definition respond_index ::
  "(saga_index_entry list \<Rightarrow> string + bytes) \<Rightarrow> sending \<Rightarrow> fs \<Rightarrow> fs \<Rightarrow> path \<Rightarrow> net_error + response"
where
  "respond_index json send fs1 fs2 saga_dir =
     res_bind (saga_index fs1 fs2 saga_dir) (\<lambda>entries.
     res_bind (map_err (\<lambda>e. Protocol [Lit ''json: '', Disp e]) (json entries)) (\<lambda>b.
     respond_with send (data_response b [(''Content-Type'', ''application/json'')])))"

definition respond_members ::
  "sending \<Rightarrow> fs \<Rightarrow> fs \<Rightarrow> path option \<Rightarrow> string \<Rightarrow> net_error + response"
where
  "respond_members send fs1 fs2 members_root url_path =
     (case members_root of
        None \<Rightarrow> respond_with send (empty_response 404)
      | Some root \<Rightarrow>
          (case Option.bind (strip_prefix ''/hansa/'' url_path) (strip_suffix ''/members'') of
             None \<Rightarrow> respond_with send (empty_response 400)
           | Some hex \<Rightarrow>
               (if length hex \<noteq> 64 \<or> \<not> all_hex hex then respond_with send (empty_response 400)
                else
                  (let snap_path = root @ [hex, ''members.snap''] in
                   res_bind
                     (if fs_exists fs1 snap_path then map_err Io (fs_read fs2 snap_path)
                      else Ok (as_bytes ''[]''))
                     (\<lambda>b. respond_with send (data_response b [(''Content-Type'', ''application/json'')]))))))"

definition handle ::
  "(saga_index_entry list \<Rightarrow> string + bytes) \<Rightarrow> sending \<Rightarrow> fs \<Rightarrow> fs \<Rightarrow> path \<Rightarrow> path option \<Rightarrow> request \<Rightarrow>
     net_error + response"
where
  "handle json send fs1 fs2 saga_dir members_root req =
     (let u = url req; saga = prefix ''/sagas/'' u \<and> suffix ''.saga'' u in
      if meth req = Get \<and> u = ''/sagas'' then respond_index json send fs1 fs2 saga_dir
      else if meth req = Get \<and> saga then respond_file send fs1 fs2 saga_dir u False
      else if meth req = Head \<and> saga then respond_file send fs1 fs2 saga_dir u True
      else if meth req = Get \<and> prefix ''/hansa/'' u \<and> suffix ''/members'' u
        then respond_members send fs1 fs2 members_root u
      else respond_with send (empty_response 404))"

section \<open>The server\<close>

record saga_server =
  saga_dir :: path
  members_root :: "path option"
  addr :: string

text \<open>Binding: the listener, its address and the \<open>tiny_http\<close> server on it may each fail.\<close>

definition bind_server ::
  "(io_error + 'l) \<Rightarrow> ('l \<Rightarrow> io_error + string) \<Rightarrow> ('l \<Rightarrow> string + unit) \<Rightarrow> path \<Rightarrow> net_error + saga_server"
where
  "bind_server listener address from_listener dir =
     res_bind (map_err Io listener) (\<lambda>l.
     res_bind (map_err Io (address l)) (\<lambda>a.
     res_bind (map_err (\<lambda>e. Protocol [Lit ''tiny_http: '', Disp e]) (from_listener l)) (\<lambda>_.
     Ok \<lparr>saga_dir = dir, members_root = None, addr = a\<rparr>)))"

definition with_members_root :: "path \<Rightarrow> saga_server \<Rightarrow> saga_server" where
  "with_members_root root s = s\<lparr>members_root := Some root\<rparr>"

definition local_addr :: "saga_server \<Rightarrow> string" where
  "local_addr s = addr s"

text \<open>
  The accept loop: the flag as it is read before each receive, with what the receive gives
  (a request, how sending its response goes and the file systems its handler meets, a time
  out, or an error); what the
  loop does is a list of actions. The loop goes on as long as the list does.
\<close>

datatype received = Request request sending fs fs | NoRequest | RecvError string

datatype action = Respond response | LogHandler net_error | LogRecv string

fun serve_until ::
  "(saga_index_entry list \<Rightarrow> string + bytes) \<Rightarrow> saga_server \<Rightarrow> (bool \<times> received) list \<Rightarrow> action list"
where
  "serve_until json s [] = []"
| "serve_until json s ((stop, r) # rs) =
     (if stop then []
      else
        (case r of
           Request req send fs1 fs2 \<Rightarrow>
             (case handle json send fs1 fs2 (saga_dir s) (members_root s) req of
                Ok resp \<Rightarrow> Respond resp # serve_until json s rs
              | Err e \<Rightarrow> LogHandler e # serve_until json s rs)
         | NoRequest \<Rightarrow> serve_until json s rs
         | RecvError e \<Rightarrow> [LogRecv e]))"

end
