(* ===== verification/SagaServerProps.thy ===== *)
theory SagaServerProps
  imports SagaServer "HOL-Library.Multiset"
begin

text \<open>
  What the saga server guarantees: it discloses nothing but sagas, the index and member
  snapshots; the answer to every request for a saga; that \<open>HEAD\<close> announces what \<open>GET\<close> sends;
  that the index is sorted and complete; and that the loop answers every request.
\<close>

section \<open>Routing\<close>

lemma drop_prefix_append [simp]: "drop (length p) (p @ s) = s"
  by simp

lemma saga_url:
  assumes "prefix ''/sagas/'' u" "suffix ''.saga'' u"
  obtains name where "u = ''/sagas/'' @ name" "suffix ''.saga'' name"
proof -
  from assms(1) obtain name where u: "u = ''/sagas/'' @ name" by (rule prefixE)
  from assms(2) obtain p where "u = p @ ''.saga''" by (rule suffixE)
  with u have "''/sagas/'' @ name = p @ ''.saga''" by simp
  then have "suffix ''.saga'' name"
    by (auto simp: append_eq_append_conv2 append_eq_Cons_conv Cons_eq_append_conv suffix_def)
  with u that show thesis by blast
qed

lemma handle_saga:
  assumes "suffix ''.saga'' name"
  shows "handle json send fs1 fs2 dir root \<lparr>meth = Get, url = ''/sagas/'' @ name\<rparr> =
      respond_file send fs1 fs2 dir (''/sagas/'' @ name) False"
    and "handle json send fs1 fs2 dir root \<lparr>meth = Head, url = ''/sagas/'' @ name\<rparr> =
      respond_file send fs1 fs2 dir (''/sagas/'' @ name) True"
proof -
  have "suffix ''.saga'' (''/sagas/'' @ name)" using assms by (rule suffix_appendI)
  then show "handle json send fs1 fs2 dir root \<lparr>meth = Get, url = ''/sagas/'' @ name\<rparr> =
      respond_file send fs1 fs2 dir (''/sagas/'' @ name) False"
    and "handle json send fs1 fs2 dir root \<lparr>meth = Head, url = ''/sagas/'' @ name\<rparr> =
      respond_file send fs1 fs2 dir (''/sagas/'' @ name) True"
    using assms by (auto simp: handle_def Let_def)
qed

lemma respond_file_name:
  "respond_file send fs1 fs2 dir (''/sagas/'' @ name) head =
     (if CHR ''/'' \<in> set name \<or> sublist ''..'' name then respond_with send (empty_response 400)
      else (case fs_read fs1 (dir @ [name]) of
         Err e \<Rightarrow> if kind e = NotFound then respond_with send (empty_response 404) else Err (Io e)
       | Ok b \<Rightarrow>
           res_bind (map_err Io (fs_metadata fs2 (dir @ [name]))) (\<lambda>meta.
             let hs = file_headers (length b) (mtime_secs meta) in
             respond_with send (if head
                 then \<lparr>status = 200, headers = hs @ [(''Content-Length'', show_nat (length b))], body = []\<rparr>
                 else data_response b hs))))"
  by (simp add: respond_file_def Let_def contains_def)

section \<open>The index\<close>

lemma index_hex_Some:
  "index_hex name = Some hex \<longleftrightarrow> name = hex @ ''.saga'' \<and> length hex = 32 \<and> all_hex hex"
proof
  assume "index_hex name = Some hex"
  then show "name = hex @ ''.saga'' \<and> length hex = 32 \<and> all_hex hex"
    by (auto simp: index_hex_def Let_def suffix_def split: if_splits)
next
  assume hex: "name = hex @ ''.saga'' \<and> length hex = 32 \<and> all_hex hex"
  have "of_char c < (0x80 :: u8)" if "c \<in> set hex" for c
    using hex that by (auto simp: all_hex_def is_ascii_hexdigit_def Let_def word_less_nat_alt unat_of_char)
  then have "utf8_valid name"
    using hex by (intro utf8_valid_ascii) (auto simp: word_less_nat_alt unat_of_char)
  moreover have "suffix ''.saga'' name" using hex by (auto intro: suffixI)
  ultimately show "index_hex name = Some hex" using hex
    by (simp add: index_hex_def)
qed

text \<open>The row of a name in a file system.\<close>

definition index_row :: "fs \<Rightarrow> path \<Rightarrow> string \<Rightarrow> saga_index_entry option" where
  "index_row fs dir name =
     (case (index_hex name, entry_metadata fs (dir @ [name])) of
        (Some hex, Ok meta) \<Rightarrow>
          Some \<lparr>tenant_id_hex = hex, entry_bytes = len meta, last_modified = mtime_secs meta\<rparr>
      | _ \<Rightarrow> None)"

lemma index_entries_rows:
  "\<forall>name \<in> set names. index_hex name \<noteq> None \<longrightarrow> \<not> is_err (entry_metadata fs (dir @ [name])) \<Longrightarrow>
   index_entries fs dir (map Ok names) = Ok (List.map_filter (index_row fs dir) names)"
proof (induction names)
  case (Cons name names)
  then show ?case
    by (cases "entry_metadata fs (dir @ [name])"; cases "index_hex name")
      (auto simp: map_filter_simps index_row_def)
qed (simp add: map_filter_simps)

lemma index_entries_rowsD:
  "index_entries fs dir items = Ok es \<Longrightarrow>
   \<exists>names. items = map Ok names \<and> es = List.map_filter (index_row fs dir) names"
proof (induction fs dir items arbitrary: es rule: index_entries.induct)
  case (3 fs dir name items)
  show ?case
  proof (cases "index_hex name")
    case None
    with 3(1) 3(3) obtain names where "items = map Ok names" "es = List.map_filter (index_row fs dir) names"
      by auto
    moreover have "index_row fs dir name = None" using None by (simp add: index_row_def)
    ultimately show ?thesis by (intro exI [of _ "name # names"]) (simp add: map_filter_simps)
  next
    case (Some hex)
    with 3(3) obtain meta es' where m: "entry_metadata fs (dir @ [name]) = Ok meta"
        "index_entries fs dir items = Ok es'"
        "es = \<lparr>tenant_id_hex = hex, entry_bytes = len meta, last_modified = mtime_secs meta\<rparr> # es'"
      by (auto simp: res_bind_eq_Ok)
    with Some 3(2) obtain names where "items = map Ok names" "es' = List.map_filter (index_row fs dir) names"
      by auto
    moreover have "index_row fs dir name = Some \<lparr>tenant_id_hex = hex, entry_bytes = len meta, last_modified = mtime_secs meta\<rparr>"
      using Some m(1) by (simp add: index_row_def)
    ultimately show ?thesis using m(3) by (intro exI [of _ "name # names"]) (simp add: map_filter_simps)
  qed
qed (simp_all add: map_filter_simps)

lemma index_row_hex: "index_row fs dir name = Some e \<Longrightarrow> name = tenant_id_hex e @ ''.saga''"
  by (auto simp: index_row_def index_hex_Some split: option.splits sum.splits)

lemma index_rows_names:
  "map (\<lambda>e. tenant_id_hex e @ ''.saga'') (List.map_filter (index_row fs dir) names) =
   filter (\<lambda>n. index_row fs dir n \<noteq> None) names"
  by (induction names) (auto simp: map_filter_simps dest: index_row_hex)

lemma index_rows_distinct:
  assumes "distinct names"
  shows "distinct (map tenant_id_hex (List.map_filter (index_row fs dir) names))"
proof -
  have "distinct (map (\<lambda>h. h @ ''.saga'') (map tenant_id_hex (List.map_filter (index_row fs dir) names)))"
    using assms index_rows_names [of fs dir names] by (simp add: comp_def)
  then show ?thesis by (rule distinct_map [THEN iffD1, THEN conjunct1])
qed

lemma in_index_rows:
  "\<lparr>tenant_id_hex = hex, entry_bytes = n, last_modified = t\<rparr> \<in> set (List.map_filter (index_row fs dir) names) \<longleftrightarrow>
     hex @ ''.saga'' \<in> set names \<and> length hex = 32 \<and> all_hex hex \<and>
     (\<exists>meta. entry_metadata fs (dir @ [hex @ ''.saga'']) = Ok meta \<and> n = len meta \<and> t = mtime_secs meta)"
proof -
  have row: "index_row fs dir name = Some \<lparr>tenant_id_hex = hex, entry_bytes = n, last_modified = t\<rparr> \<longleftrightarrow>
      name = hex @ ''.saga'' \<and> length hex = 32 \<and> all_hex hex \<and>
      (\<exists>meta. entry_metadata fs (dir @ [name]) = Ok meta \<and> n = len meta \<and> t = mtime_secs meta)" for name
  proof (cases "index_hex name = Some hex")
    case True
    then show ?thesis using index_hex_Some [of name hex]
      by (cases "entry_metadata fs (dir @ [name])") (auto simp: index_row_def)
  next
    case False
    then have "\<not> (name = hex @ ''.saga'' \<and> length hex = 32 \<and> all_hex hex)"
      by (simp add: index_hex_Some)
    moreover have "index_row fs dir name \<noteq> Some \<lparr>tenant_id_hex = hex, entry_bytes = n, last_modified = t\<rparr>"
      using False by (simp add: index_row_def split: option.split sum.split)
    ultimately show ?thesis by blast
  qed
  show ?thesis unfolding in_map_filter row by auto
qed

lemma names_distinct:
  assumes "distinct (map fst fs)"
  shows "distinct (names_in fs p)"
proof -
  have "map (\<lambda>n. p @ [n]) (names_in fs p) = filter (\<lambda>q. child_of p q \<noteq> None) (map fst fs)"
    unfolding names_in_def
  proof (induction fs)
    case (Cons e fs)
    then show ?case by (cases e) (auto simp: map_filter_simps child_of_def split: if_splits)
  qed (simp add: map_filter_simps)
  then have "distinct (map (\<lambda>n. p @ [n]) (names_in fs p))" using assms by simp
  then show ?thesis by (rule distinct_map [THEN iffD1, THEN conjunct1])
qed

section \<open>What clients can rely on\<close>

text \<open>The sample: a directory with one saga and one other file.\<close>

definition sample_hex :: string where "sample_hex = replicate 32 CHR ''a''"

definition plain_dir :: dir_entry where
  "plain_dir = Plain (Dir \<lparr>len = 4096, modified = Some 0\<rparr> None)"

definition sample_fs :: fs where
  "sample_fs =
     [([''s''], plain_dir), ([''s'', sample_hex @ ''.saga''], Plain (File [1, 2] (Some 5000000000))),
      ([''s'', ''README''], Plain (File [] None))]"

text \<open>A response that is sent without an error.\<close>

definition delivered :: sending where "delivered r = Ok ()"

lemma respond_delivered [simp]: "respond_with delivered r = Ok r"
  by (simp add: respond_with_def delivered_def)

lemma respond_with_Ok: "respond_with send r = Ok r' \<longleftrightarrow> send r = Ok () \<and> r' = r"
  by (auto simp: respond_with_def res_bind_eq_Ok)

definition sample_json :: "saga_index_entry list \<Rightarrow> string + bytes" where
  "sample_json es = Ok (replicate (length es) 0)"

lemma sample_hex_ok: "length sample_hex = 32" "all_hex sample_hex" "CHR ''/'' \<notin> set sample_hex"
  by (simp_all add: sample_hex_def all_hex_def is_ascii_hexdigit_def)

lemma sample_name:
  "suffix ''.saga'' (sample_hex @ ''.saga'')" "CHR ''/'' \<notin> set (sample_hex @ ''.saga'')"
  "\<not> sublist ''..'' (sample_hex @ ''.saga'')"
  by (auto simp: sample_hex_def eval_nat_numeral sublist_Cons_right intro: suffixI)

lemma sample_get:
  "handle sample_json delivered sample_fs sample_fs [''s''] None
     \<lparr>meth = Get, url = ''/sagas/'' @ sample_hex @ ''.saga''\<rparr> =
   Ok (data_response [1, 2] (file_headers 2 5))"
  unfolding handle_saga [OF sample_name(1)] respond_file_name
  using sample_name(2,3)
  by (simp add: fs_read_def fs_metadata_def fs_node_def fs_entry_def sample_fs_def mtime_secs_def Let_def
      flip: numeral_2_eq_2)

text \<open>
  C16: whatever is asked for and whatever the files, a successful answer to a request other
  than \<open>HEAD\<close> carries the index of the directory, the contents of a file that lies directly
  in the directory and is named \<open>*.saga\<close>, a member snapshot below the configured root under
  64 hex digits, or the empty array; so no path leads out of the two directories.
\<close>

theorem server_confined:
  assumes "handle json send fs1 fs2 dir root req = Ok r" and "status r = 200" and "meth req \<noteq> Head"
  shows "(\<exists>es. saga_index fs1 fs2 dir = Ok es \<and> json es = Ok (body r)) \<or>
    (\<exists>name. CHR ''/'' \<notin> set name \<and> \<not> sublist ''..'' name \<and> suffix ''.saga'' name \<and>
       fs_read fs1 (dir @ [name]) = Ok (body r)) \<or>
    (\<exists>base hex. root = Some base \<and> length hex = 64 \<and> all_hex hex \<and>
       (fs_read fs2 (base @ [hex, ''members.snap'']) = Ok (body r) \<or> body r = as_bytes ''[]''))"
proof -
  consider (index) "respond_index json send fs1 fs2 dir = Ok r"
    | (saga) "prefix ''/sagas/'' (url req)" "suffix ''.saga'' (url req)"
        "respond_file send fs1 fs2 dir (url req) False = Ok r"
    | (members) "respond_members send fs1 fs2 root (url req) = Ok r"
    using assms by (auto simp: handle_def Let_def empty_response_def respond_with_Ok split: if_splits)
  then show ?thesis
  proof cases
    case index
    then show ?thesis
      by (auto simp: respond_index_def res_bind_eq_Ok respond_with_Ok data_response_def)
  next
    case saga
    obtain name where name: "url req = ''/sagas/'' @ name" "suffix ''.saga'' name"
      using saga(1,2) by (rule saga_url)
    with saga(3) assms(2) have "CHR ''/'' \<notin> set name \<and> \<not> sublist ''..'' name \<and>
        fs_read fs1 (dir @ [name]) = Ok (body r)"
      unfolding name(1) respond_file_name
      by (auto simp: res_bind_eq_Ok respond_with_Ok empty_response_def data_response_def Let_def
          split: if_splits sum.splits)
    with name(2) show ?thesis by blast
  next
    case members
    with assms(2) show ?thesis
      by (auto simp: respond_members_def res_bind_eq_Ok respond_with_Ok empty_response_def data_response_def Let_def
          split: option.splits if_splits)
  qed
qed

theorem server_confined_witness:
  "(\<exists>es. saga_index sample_fs sample_fs [''s''] = Ok es \<and> sample_json es = Ok [1, 2]) \<or>
   (\<exists>name. CHR ''/'' \<notin> set name \<and> \<not> sublist ''..'' name \<and> suffix ''.saga'' name \<and>
      fs_read sample_fs ([''s''] @ [name]) = Ok [1, 2]) \<or>
   (\<exists>base hex. None = Some base \<and> length hex = 64 \<and> all_hex hex \<and>
      (fs_read sample_fs (base @ [hex, ''members.snap'']) = Ok [1, 2] \<or> [1, 2] = as_bytes ''[]''))"
  using server_confined [OF sample_get] by (simp add: data_response_def)

text \<open>\<open>HEAD\<close> and \<open>GET\<close> for the same saga, while the files may change.\<close>

lemma head_as_get:
  assumes "suffix ''.saga'' name"
  shows "handle json send fs1 fs2 dir root \<lparr>meth = Head, url = ''/sagas/'' @ name\<rparr> =
    res_bind (handle json delivered fs1 fs2 dir root \<lparr>meth = Get, url = ''/sagas/'' @ name\<rparr>) (\<lambda>r.
      respond_with send (r\<lparr>body := [], headers := headers r @
        (if status r = 200 then [(''Content-Length'', show_nat (length (body r)))] else [])\<rparr>))"
  unfolding handle_saga [OF assms] respond_file_name
  by (auto simp: res_bind_assoc empty_response_def data_response_def Let_def
      split: sum.split intro!: arg_cong2 [where f = res_bind])

text \<open>
  C33: the answer to a \<open>GET\<close> for a saga, while nobody writes: a name with a slash or two
  dots is a bad request; otherwise the file's bytes with their length and time in the
  headers, 404 when there is no such file, and an error of the handler for anything that
  cannot be read. \<open>HEAD\<close>, whether somebody writes or not, answers exactly as \<open>GET\<close> does,
  without the body and, on success, with the length of that body in a further header. An
  error in sending is the handler's.
\<close>

theorem get_saga:
  assumes "suffix ''.saga'' name"
  shows "handle json send fs fs dir root \<lparr>meth = Get, url = ''/sagas/'' @ name\<rparr> =
    (if CHR ''/'' \<in> set name \<or> sublist ''..'' name
     then respond_with send \<lparr>status = 400, headers = [], body = []\<rparr>
     else (case fs_node fs (dir @ [name]) of
        None \<Rightarrow> respond_with send \<lparr>status = 404, headers = [], body = []\<rparr>
      | Some (File b t) \<Rightarrow> respond_with send \<lparr>status = 200,
          headers = file_headers (length b) (mtime_secs \<lparr>len = of_nat (length b), modified = t\<rparr>), body = b\<rparr>
      | Some (Dir _ _) \<Rightarrow> Err (Io is_a_directory)
      | Some (Closed _ e) \<Rightarrow>
          if kind e = NotFound then respond_with send \<lparr>status = 404, headers = [], body = []\<rparr> else Err (Io e)
      | Some (Unreadable e) \<Rightarrow>
          if kind e = NotFound then respond_with send \<lparr>status = 404, headers = [], body = []\<rparr> else Err (Io e))) \<and>
    handle json send fs1 fs2 dir root \<lparr>meth = Head, url = ''/sagas/'' @ name\<rparr> =
    res_bind (handle json delivered fs1 fs2 dir root \<lparr>meth = Get, url = ''/sagas/'' @ name\<rparr>) (\<lambda>r.
      respond_with send (r\<lparr>body := [], headers := headers r @
        (if status r = 200 then [(''Content-Length'', show_nat (length (body r)))] else [])\<rparr>))"
  unfolding head_as_get [OF assms] unfolding handle_saga [OF assms] respond_file_name
  by (auto simp: fs_read_def fs_metadata_def empty_response_def data_response_def not_found_def
      is_a_directory_def Let_def split: option.split node.split)

theorem get_saga_witness:
  "handle sample_json delivered sample_fs sample_fs [''s''] None
     \<lparr>meth = Get, url = ''/sagas/'' @ sample_hex @ ''.saga''\<rparr> =
     Ok \<lparr>status = 200, headers = file_headers 2 5, body = [1, 2]\<rparr> \<and>
   handle sample_json delivered sample_fs sample_fs [''s''] None
     \<lparr>meth = Head, url = ''/sagas/'' @ sample_hex @ ''.saga''\<rparr> =
     Ok \<lparr>status = 200, headers = file_headers 2 5 @ [(''Content-Length'', show_nat 2)], body = []\<rparr>"
proof -
  note answers = get_saga [OF sample_name(1), where fs = sample_fs and ?fs1.0 = sample_fs and ?fs2.0 = sample_fs]
  from conjunct1 [OF answers] have get: "handle sample_json delivered sample_fs sample_fs [''s''] None
     \<lparr>meth = Get, url = ''/sagas/'' @ sample_hex @ ''.saga''\<rparr> =
     Ok \<lparr>status = 200, headers = file_headers 2 5, body = [1, 2]\<rparr>"
    using sample_name(2,3)
    by (simp add: fs_node_def fs_entry_def sample_fs_def mtime_secs_def flip: numeral_2_eq_2)
  then show ?thesis unfolding conjunct2 [OF answers] get
    by (simp flip: numeral_2_eq_2)
qed



lemma handle_members:
  "handle json send fs fs dir root \<lparr>meth = Get, url = ''/hansa/'' @ hex @ ''/members''\<rparr> =
    (case root of
       None \<Rightarrow> respond_with send \<lparr>status = 404, headers = [], body = []\<rparr>
     | Some base \<Rightarrow>
         if length hex = 64 \<and> all_hex hex then
           (let sent = (\<lambda>b. respond_with send \<lparr>status = 200, headers = [(''Content-Type'', ''application/json'')], body = b\<rparr>) in
            case fs_node fs (base @ [hex, ''members.snap'']) of
              None \<Rightarrow> sent (as_bytes ''[]'')
            | Some (File b t) \<Rightarrow> sent b
            | Some (Dir _ _) \<Rightarrow> Err (Io is_a_directory)
            | Some (Closed _ e) \<Rightarrow> Err (Io e)
            | Some (Unreadable e) \<Rightarrow> sent (as_bytes ''[]''))
         else respond_with send \<lparr>status = 400, headers = [], body = []\<rparr>)"
proof -
  let ?u = "''/hansa/'' @ hex @ ''/members''"
  have "suffix ''/members'' ?u" by (intro suffix_appendI suffixI) simp
  moreover have "prefix ''/hansa/'' ?u" by simp
  ultimately have "handle json send fs fs dir root \<lparr>meth = Get, url = ?u\<rparr> = respond_members send fs fs root ?u"
    by (simp add: handle_def Let_def)
  moreover have "Option.bind (strip_prefix ''/hansa/'' ?u) (strip_suffix ''/members'') = Some hex"
    by (simp only: strip_prefix_append strip_suffix_append Option.bind.simps)
  ultimately show ?thesis
    unfolding respond_members_def
    by (simp add: Let_def empty_response_def data_response_def fs_exists_def fs_read_def fs_metadata_def
        split: option.split node.split)
qed

text \<open>The requests the routes are for; the parts of the last one may share a slash.\<close>

definition routed :: "http_method \<Rightarrow> string \<Rightarrow> bool" where
  "routed m u \<longleftrightarrow>
     m = Get \<and> u = ''/sagas'' \<or>
     (m = Get \<or> m = Head) \<and> (\<exists>name. suffix ''.saga'' name \<and> u = ''/sagas/'' @ name) \<or>
     m = Get \<and> (u = ''/hansa/members'' \<or> (\<exists>hex. u = ''/hansa/'' @ hex @ ''/members''))"

lemma members_url:
  assumes "prefix ''/hansa/'' u" and "suffix ''/members'' u"
  shows "u = ''/hansa/members'' \<or> (\<exists>hex. u = ''/hansa/'' @ hex @ ''/members'')"
proof -
  obtain v where v: "u = ''/hansa/'' @ v" using assms(1) by (rule prefixE)
  have "suffix ''/members'' (''/hansa/'' @ v)" using assms(2) unfolding v .
  then have "suffix ''/members'' v \<or> (\<exists>p. ''/members'' = p @ v \<and> suffix p ''/hansa/'')"
    unfolding suffix_append by blast
  then show ?thesis
  proof
    assume "suffix ''/members'' v"
    then obtain hex where "v = hex @ ''/members''" by (rule suffixE)
    with v show ?thesis by blast
  next
    assume "\<exists>p. ''/members'' = p @ v \<and> suffix p ''/hansa/''"
    then obtain p where "''/members'' = p @ v" "suffix p ''/hansa/''" by blast
    then have "v = ''members'' \<or> v = ''/members''" by (auto simp: suffix_Cons Cons_eq_append_conv)
    then show ?thesis
    proof
      assume "v = ''/members''"
      then have "u = ''/hansa/'' @ [] @ ''/members''" using v by simp
      then show ?thesis by blast
    qed (simp add: v)
  qed
qed

lemma handle_unrouted:
  assumes "\<not> routed m u"
  shows "handle json send fs1 fs2 dir root \<lparr>meth = m, url = u\<rparr> = respond_with send (empty_response 404)"
proof -
  have "\<not> (prefix ''/sagas/'' u \<and> suffix ''.saga'' u)" if "m = Get \<or> m = Head"
  proof
    assume u: "prefix ''/sagas/'' u \<and> suffix ''.saga'' u"
    then obtain name where "u = ''/sagas/'' @ name" "suffix ''.saga'' name" by (blast elim: saga_url)
    with assms that show False unfolding routed_def by blast
  qed
  moreover have "\<not> (prefix ''/hansa/'' u \<and> suffix ''/members'' u)" if "m = Get"
    using assms that members_url [of u] by (auto simp: routed_def)
  ultimately show ?thesis using assms by (auto simp: handle_def Let_def routed_def)
qed

lemma handle_members_no_id:
  "handle json send fs1 fs2 dir root \<lparr>meth = Get, url = ''/hansa/members''\<rparr> =
    respond_with send \<lparr>status = (case root of None \<Rightarrow> 404 | Some _ \<Rightarrow> 400), headers = [], body = []\<rparr>"
proof -
  have "suffix ''/members'' ''/hansa/members''" by (simp add: suffix_def)
  then show ?thesis
    by (simp add: handle_def Let_def respond_members_def empty_response_def strip_prefix_def
        strip_suffix_def suffix_Cons split: option.split)
qed

text \<open>
  C36: a request for the members of a hansa is refused unless the part between
  \<open>/hansa/\<close> and \<open>/members\<close> is 64 hex digits (upper case too); then the snapshot is sent as
  it is, and an empty array when there is none yet, or none whose metadata can be had (then
  \<open>exists\<close> says no); one that is there and cannot be read is an error. The path without an id in it
  (\<open>/hansa/members\<close>) is refused as well. Without a configured root, and for any
  other request that matches no route, the answer is 404.
\<close>

theorem get_members:
  assumes "\<not> routed m u"
  shows "handle json send fs fs dir root \<lparr>meth = Get, url = ''/hansa/'' @ hex @ ''/members''\<rparr> =
    (case root of
       None \<Rightarrow> respond_with send \<lparr>status = 404, headers = [], body = []\<rparr>
     | Some base \<Rightarrow>
         if length hex = 64 \<and> all_hex hex then
           (let sent = (\<lambda>b. respond_with send \<lparr>status = 200, headers = [(''Content-Type'', ''application/json'')], body = b\<rparr>) in
            case fs_node fs (base @ [hex, ''members.snap'']) of
              None \<Rightarrow> sent (as_bytes ''[]'')
            | Some (File b t) \<Rightarrow> sent b
            | Some (Dir _ _) \<Rightarrow> Err (Io is_a_directory)
            | Some (Closed _ e) \<Rightarrow> Err (Io e)
            | Some (Unreadable e) \<Rightarrow> sent (as_bytes ''[]''))
         else respond_with send \<lparr>status = 400, headers = [], body = []\<rparr>) \<and>
    handle json send fs1 fs2 dir root \<lparr>meth = Get, url = ''/hansa/members''\<rparr> =
      respond_with send \<lparr>status = (case root of None \<Rightarrow> 404 | Some _ \<Rightarrow> 400), headers = [], body = []\<rparr> \<and>
    handle json send fs1 fs2 dir root \<lparr>meth = m, url = u\<rparr> =
      respond_with send \<lparr>status = 404, headers = [], body = []\<rparr>"
  using handle_unrouted [OF assms] unfolding empty_response_def
  by (intro conjI handle_members handle_members_no_id)

theorem get_members_witness:
  "handle sample_json delivered sample_fs sample_fs [''s''] (Some [''m''])
     \<lparr>meth = Get, url = ''/hansa/'' @ (sample_hex @ sample_hex) @ ''/members''\<rparr> =
     Ok \<lparr>status = 200, headers = [(''Content-Type'', ''application/json'')], body = as_bytes ''[]''\<rparr> \<and>
   handle sample_json delivered sample_fs sample_fs [''s''] (Some [''m'']) \<lparr>meth = Head, url = ''/sagas''\<rparr> =
     Ok \<lparr>status = 404, headers = [], body = []\<rparr>"
proof -
  have "\<not> routed Head ''/sagas''" by (simp add: routed_def)
  from get_members [OF this, of sample_json delivered sample_fs "[''s'']" "Some [''m'']" "sample_hex @ sample_hex"
      sample_fs sample_fs]
  show ?thesis using sample_hex_ok by (auto simp: all_hex_def fs_node_def fs_entry_def sample_fs_def)
qed

text \<open>What the loop does with one receive, and whether it goes on after it.\<close>

definition answer ::
  "(saga_index_entry list \<Rightarrow> string + bytes) \<Rightarrow> saga_server \<Rightarrow> received \<Rightarrow> action option"
where
  "answer json s r =
     (case r of
        Request req send fs1 fs2 \<Rightarrow>
          (case handle json send fs1 fs2 (saga_dir s) (members_root s) req of
             Ok resp \<Rightarrow> Some (Respond resp) | Err e \<Rightarrow> Some (LogHandler e))
      | NoRequest \<Rightarrow> None
      | RecvError e \<Rightarrow> None)"

definition going :: "bool \<times> received \<Rightarrow> bool" where
  "going e = (\<not> fst e \<and> (case snd e of RecvError _ \<Rightarrow> False | _ \<Rightarrow> True))"

text \<open>
  C37: the loop answers requests in their order until the flag is set or a receive fails: a
  handler's error, in reading or in sending, is logged and costs no other request its
  answer, time outs change nothing, and what comes after the end is not looked at.
\<close>

theorem serve_until_answers:
  "serve_until json s rs =
    List.map_filter (answer json s \<circ> snd) (takeWhile going rs) @
    (case dropWhile going rs of (False, RecvError e) # _ \<Rightarrow> [LogRecv e] | _ \<Rightarrow> [])"
proof (induction rs)
  case (Cons e rs)
  obtain stop r where e: "e = (stop, r)" by (cases e)
  with Cons show ?case
    by (cases r) (auto simp: map_filter_simps going_def answer_def split: sum.splits)
qed (simp add: map_filter_simps)

end
