(* ===== verification/SagaClient.thy ===== *)
theory SagaClient
  imports SagaServer
begin

text \<open>
  The two saga clients (\<open>client.rs\<close> on \<open>ureq\<close>, \<open>async_client.rs\<close> on \<open>reqwest\<close>). The HTTP
  crates are arguments: the records \<open>ureq\<close> and \<open>reqwest\<close> hold the functions the clients
  call on them, over their own types of responses and errors. A tenant id is its 16 bytes.
\<close>

section \<open>The HTTP crates\<close>

datatype 'r ureq_error = Status nat 'r | Transport string

record 'r ureq =
  ureq_get :: "string \<Rightarrow> 'r ureq_error + 'r"
  ureq_head :: "string \<Rightarrow> 'r ureq_error + 'r"
  status_text :: "'r \<Rightarrow> string"
  read_to_end :: "'r \<Rightarrow> io_error + bytes"
  into_json :: "'r \<Rightarrow> io_error + saga_index_entry list"
  resp_header :: "'r \<Rightarrow> string \<Rightarrow> string option"

record ('e, 'r) reqwest =
  rq_get :: "string \<Rightarrow> 'e + 'r"
  rq_head :: "string \<Rightarrow> 'e + 'r"
  rq_status :: "'r \<Rightarrow> nat"
  is_success :: "nat \<Rightarrow> bool"
  canonical_reason :: "nat \<Rightarrow> string option"
  rq_bytes :: "'r \<Rightarrow> 'e + bytes"
  rq_json :: "'r \<Rightarrow> 'e + saga_index_entry list"
  rq_header :: "'r \<Rightarrow> string \<Rightarrow> string option"
  err_status :: "'e \<Rightarrow> nat option"
  err_text :: "'e \<Rightarrow> string"

section \<open>What the clients share\<close>

function trim_slashes :: "string \<Rightarrow> string" where
  "trim_slashes u = (if suffix ''/'' u then trim_slashes (butlast u) else u)"
  by pat_completeness auto
termination by (relation "measure length") (auto simp: suffix_def)

declare trim_slashes.simps [simp del]

definition format_tenant_hex :: "bytes \<Rightarrow> string" where
  "format_tenant_hex t = concat (map hex2 t)"

definition saga_path :: "bytes \<Rightarrow> string" where
  "saga_path t = ''/sagas/'' @ format_tenant_hex t @ ''.saga''"

definition parse_time :: "string \<Rightarrow> i64 option" where
  "parse_time s = map_option of_int (parse_i64 s)"

definition bad_hansa_id :: "string \<Rightarrow> net_error" where
  "bad_hansa_id s = Protocol [Lit ''invalid hansa id hex: '', DbgStr s]"

section \<open>The synchronous client\<close>

record saga_client =
  base_url :: string

definition client_new :: "string \<Rightarrow> saga_client" where
  "client_new u = \<lparr>base_url = trim_slashes u\<rparr>"

definition map_ureq :: "'r ureq \<Rightarrow> 'r ureq_error \<Rightarrow> net_error" where
  "map_ureq U e =
     (case e of
        Status code resp \<Rightarrow> Remote [Lit ''HTTP '', Disp (show_nat code), Lit '': '', Disp (status_text U resp)]
      | Transport t \<Rightarrow> Io (io_other t))"

definition list_sagas :: "'r ureq \<Rightarrow> saga_client \<Rightarrow> net_error + saga_index_entry list" where
  "list_sagas U c =
     res_bind (map_err (map_ureq U) (ureq_get U (base_url c @ ''/sagas''))) (\<lambda>resp.
     map_err Io (into_json U resp))"

definition fetch :: "'r ureq \<Rightarrow> saga_client \<Rightarrow> bytes \<Rightarrow> net_error + bytes" where
  "fetch U c tid =
     res_bind (map_err (map_ureq U) (ureq_get U (base_url c @ saga_path tid))) (\<lambda>resp.
     map_err Io (read_to_end U resp))"

definition fetch_members_raw :: "'r ureq \<Rightarrow> saga_client \<Rightarrow> string \<Rightarrow> net_error + bytes" where
  "fetch_members_raw U c hex =
     (if length hex \<noteq> 64 \<or> \<not> all_hex hex then Err (bad_hansa_id hex)
      else
        res_bind (map_err (map_ureq U) (ureq_get U (base_url c @ ''/hansa/'' @ hex @ ''/members''))) (\<lambda>resp.
        map_err Io (read_to_end U resp)))"

definition head :: "'r ureq \<Rightarrow> saga_client \<Rightarrow> bytes \<Rightarrow> net_error + i64 option" where
  "head U c tid =
     (case ureq_head U (base_url c @ saga_path tid) of
        Ok resp \<Rightarrow> Ok (Option.bind (resp_header U resp ''Last-Modified'') parse_time)
      | Err (Status code resp) \<Rightarrow>
          if code = 404 then Ok None else Err (map_ureq U (Status code resp))
      | Err e \<Rightarrow> Err (map_ureq U e))"

section \<open>The asynchronous client\<close>

text \<open>
  Its \<open>reqwest\<close> client is the argument of the operations. The module has a
  \<open>format_tenant_hex\<close> of its own, which pushes the digits of one byte after the other.
\<close>

record async_saga_client =
  async_base_url :: string

definition format_tenant_hex_async :: "bytes \<Rightarrow> string" where
  "format_tenant_hex_async t = foldl (\<lambda>s b. s @ hex2 b) [] t"

definition saga_path_async :: "bytes \<Rightarrow> string" where
  "saga_path_async t = ''/sagas/'' @ format_tenant_hex_async t @ ''.saga''"

definition status_error :: "('e, 'r) reqwest \<Rightarrow> nat \<Rightarrow> net_error" where
  "status_error R code =
     Remote [Lit ''HTTP '', Disp (show_nat code), Lit '' '',
       Disp (case canonical_reason R code of Some s \<Rightarrow> s | None \<Rightarrow> [])]"

definition error_for_status :: "('e, 'r) reqwest \<Rightarrow> 'r \<Rightarrow> net_error + 'r" where
  "error_for_status R resp =
     (let st = rq_status R resp in
      if is_success R st then Ok resp else Err (status_error R st))"

definition map_reqwest :: "('e, 'r) reqwest \<Rightarrow> 'e \<Rightarrow> net_error" where
  "map_reqwest R e =
     (case err_status R e of
        Some st \<Rightarrow> status_error R st
      | None \<Rightarrow> Io (io_other (err_text R e)))"

text \<open>Building the \<open>reqwest\<close> client may fail with an error of its own.\<close>

definition async_client_new :: "('e, 'r) reqwest \<Rightarrow> ('e + unit) \<Rightarrow> string \<Rightarrow> net_error + async_saga_client" where
  "async_client_new R built u =
     res_bind (map_err (\<lambda>e. Io (io_other (err_text R e))) built) (\<lambda>_.
     Ok \<lparr>async_base_url = trim_slashes u\<rparr>)"

definition list_async :: "('e, 'r) reqwest \<Rightarrow> async_saga_client \<Rightarrow> net_error + saga_index_entry list" where
  "list_async R c =
     res_bind (map_err (map_reqwest R) (rq_get R (async_base_url c @ ''/sagas''))) (\<lambda>resp.
     res_bind (error_for_status R resp) (\<lambda>resp.
     map_err (map_reqwest R) (rq_json R resp)))"

definition fetch_async :: "('e, 'r) reqwest \<Rightarrow> async_saga_client \<Rightarrow> bytes \<Rightarrow> net_error + bytes" where
  "fetch_async R c tid =
     res_bind (map_err (map_reqwest R) (rq_get R (async_base_url c @ saga_path_async tid))) (\<lambda>resp.
     res_bind (error_for_status R resp) (\<lambda>resp.
     map_err (map_reqwest R) (rq_bytes R resp)))"

definition fetch_members_async :: "('e, 'r) reqwest \<Rightarrow> async_saga_client \<Rightarrow> string \<Rightarrow> net_error + bytes" where
  "fetch_members_async R c hex =
     (if length hex \<noteq> 64 \<or> \<not> all_hex hex then Err (bad_hansa_id hex)
      else
        res_bind (map_err (map_reqwest R) (rq_get R (async_base_url c @ ''/hansa/'' @ hex @ ''/members''))) (\<lambda>resp.
        res_bind (error_for_status R resp) (\<lambda>resp.
        map_err (map_reqwest R) (rq_bytes R resp))))"

definition head_async :: "('e, 'r) reqwest \<Rightarrow> async_saga_client \<Rightarrow> bytes \<Rightarrow> net_error + i64 option" where
  "head_async R c tid =
     res_bind (map_err (map_reqwest R) (rq_head R (async_base_url c @ saga_path_async tid))) (\<lambda>resp.
     if rq_status R resp = 404 then Ok None
     else
       res_bind (error_for_status R resp) (\<lambda>resp.
       Ok (Option.bind (rq_header R resp ''Last-Modified'') parse_time)))"

section \<open>Saving a saga\<close>

text \<open>
  The temporary name next to the destination, and \<open>fetch_to_path\<close> of either client: \<open>r\<close> is
  what its \<open>fetch\<close> returned, \<open>pid\<close> the id of the process, \<open>now\<close> the time of the write, \<open>dm\<close>
  the metadata of a directory that is made.
\<close>

definition tmp_path :: "nat \<Rightarrow> path \<Rightarrow> path" where
  "tmp_path pid dest =
     path_with_extension
       ((case path_extension dest of
           Some e \<Rightarrow> if utf8_valid e then e else ''saga''
         | None \<Rightarrow> ''saga'') @ ''.tmp.'' @ show_nat pid) dest"

definition io_step :: "(io_error + unit) \<times> fs \<Rightarrow> (fs \<Rightarrow> (net_error + 'a) \<times> fs) \<Rightarrow> (net_error + 'a) \<times> fs" where
  "io_step m k = (case m of (Err e, fs) \<Rightarrow> (Err (Io e), fs) | (Ok _, fs) \<Rightarrow> k fs)"

definition fetch_to_path ::
  "nat \<Rightarrow> int option \<Rightarrow> metadata \<Rightarrow> net_error + bytes \<Rightarrow> path \<Rightarrow> fs \<Rightarrow> (net_error + nat) \<times> fs"
where
  "fetch_to_path pid now dm r dest fs =
     (case r of
        Err e \<Rightarrow> (Err e, fs)
      | Ok b \<Rightarrow>
          (case path_parent dest of
             None \<Rightarrow> (Err (Protocol [Lit ''dest_path has no parent'']), fs)
           | Some parent \<Rightarrow>
               io_step (create_dir_all dm parent fs) (\<lambda>fs.
               let tmp = tmp_path pid dest in
               io_step (fs_write now tmp b fs) (\<lambda>fs.
               io_step (fs_rename tmp dest fs) (\<lambda>fs.
               (Ok (length b), fs))))))"

text \<open>
  The asynchronous variant runs the file operations on another thread. The thread may fail
  to finish (\<open>join\<close>): then there is the error's text, and the file system as it was left.
\<close>

definition fetch_to_path_async ::
  "nat \<Rightarrow> int option \<Rightarrow> metadata \<Rightarrow> (string \<times> fs) option \<Rightarrow> net_error + bytes \<Rightarrow> path \<Rightarrow> fs \<Rightarrow> (net_error + nat) \<times> fs"
where
  "fetch_to_path_async pid now dm join r dest fs =
     (case r of
        Err e \<Rightarrow> (Err e, fs)
      | Ok b \<Rightarrow>
          (case path_parent dest of
             None \<Rightarrow> (Err (Protocol [Lit ''dest_path has no parent'']), fs)
           | Some parent \<Rightarrow>
               (case join of
                  Some (e, left) \<Rightarrow> (Err (Io (io_other e)), left)
                | None \<Rightarrow>
                    io_step (create_dir_all dm parent fs) (\<lambda>fs.
                    let tmp = tmp_path pid dest in
                    io_step (fs_write now tmp b fs) (\<lambda>fs.
                    io_step (fs_rename tmp dest fs) (\<lambda>fs.
                    (Ok (length b), fs)))))))"

section \<open>Lemmas\<close>

lemma push_hex: "foldl (\<lambda>s b. s @ hex2 b) s t = s @ concat (map hex2 t)"
  by (induction t arbitrary: s) auto

lemma saga_path_async_eq [simp]: "saga_path_async t = saga_path t"
  by (simp add: saga_path_async_def saga_path_def format_tenant_hex_async_def format_tenant_hex_def push_hex)

end
