(* ===== verification/SagaClientProps.thy ===== *)
theory SagaClientProps
  imports SagaClient SagaServerProps
begin

text \<open>
  What the clients guarantee against the server: both fetch a saga's exact bytes and read its
  time, and both report a saga that is not there; and saving a fetched saga replaces the
  destination in one step, whatever interrupts it.
\<close>

section \<open>What the HTTP crates promise\<close>

text \<open>
  Requests to \<open>base\<close> reach a server that answers by \<open>h\<close>: \<open>ureq\<close> gives the response, or
  \<open>Error::Status\<close> when its status is 400 or more.
\<close>

definition ureq_serves :: "'r ureq \<Rightarrow> string \<Rightarrow> (request \<Rightarrow> net_error + response) \<Rightarrow> bool" where
  "ureq_serves U base h \<longleftrightarrow>
     (\<forall>u r. h \<lparr>meth = Get, url = u\<rparr> = Ok r \<longrightarrow>
        (if status r < 400
         then \<exists>x. ureq_get U (base @ u) = Ok x \<and> read_to_end U x = Ok (body r)
         else \<exists>x. ureq_get U (base @ u) = Err (Status (status r) x))) \<and>
     (\<forall>u r. h \<lparr>meth = Head, url = u\<rparr> = Ok r \<longrightarrow>
        (if status r < 400
         then \<exists>x. ureq_head U (base @ u) = Ok x \<and> (\<forall>n. resp_header U x n = map_of (headers r) n)
         else \<exists>x. ureq_head U (base @ u) = Err (Status (status r) x)))"

text \<open>\<open>reqwest\<close> gives every response, with its status; the 2xx ones are a success.\<close>

definition reqwest_serves :: "('e, 'r) reqwest \<Rightarrow> string \<Rightarrow> (request \<Rightarrow> net_error + response) \<Rightarrow> bool" where
  "reqwest_serves R base h \<longleftrightarrow>
     (\<forall>n. is_success R n \<longleftrightarrow> 200 \<le> n \<and> n < 300) \<and>
     (\<forall>u r. h \<lparr>meth = Get, url = u\<rparr> = Ok r \<longrightarrow>
        (\<exists>x. rq_get R (base @ u) = Ok x \<and> rq_status R x = status r \<and> rq_bytes R x = Ok (body r))) \<and>
     (\<forall>u r. h \<lparr>meth = Head, url = u\<rparr> = Ok r \<longrightarrow>
        (\<exists>x. rq_head R (base @ u) = Ok x \<and> rq_status R x = status r \<and>
           (\<forall>n. rq_header R x n = map_of (headers r) n)))"

section \<open>The contract of the clients\<close>

lemma hex_name:
  "CHR ''/'' \<notin> set (format_tenant_hex t @ ''.saga'')"
  "\<not> sublist ''..'' (format_tenant_hex t @ ''.saga'')"
proof -
  have hex: "is_ascii_hexdigit c" if "c \<in> set (format_tenant_hex t)" for c
    using that hex2_hexdigits by (auto simp: format_tenant_hex_def)
  have "c \<noteq> CHR ''/'' \<and> c \<noteq> CHR ''.''" if "is_ascii_hexdigit c" for c
    using that by (auto simp: is_ascii_hexdigit_def)
  with hex have plain: "\<forall>c \<in> set (format_tenant_hex t). c \<noteq> CHR ''/'' \<and> c \<noteq> CHR ''.''" by blast
  then show "CHR ''/'' \<notin> set (format_tenant_hex t @ ''.saga'')" by auto
  have "\<forall>c \<in> set h. c \<noteq> CHR ''.'' \<Longrightarrow> \<not> sublist ''..'' (h @ ''.saga'')" for h
    by (induction h) (auto simp: sublist_Cons_right)
  with plain show "\<not> sublist ''..'' (format_tenant_hex t @ ''.saga'')" by blast
qed

lemma saga_name: "suffix ''.saga'' (format_tenant_hex t @ ''.saga'')"
  by (rule suffixI) simp

lemma handle_saga_path:
  assumes "fs_node fs (dir @ [format_tenant_hex t @ ''.saga'']) = Some (File b m)"
  defines "hs \<equiv> file_headers (length b) (mtime_secs \<lparr>len = of_nat (length b), modified = m\<rparr>)"
  shows "handle json delivered fs fs dir root \<lparr>meth = Get, url = saga_path t\<rparr> = Ok (data_response b hs)"
    and "handle json delivered fs fs dir root \<lparr>meth = Head, url = saga_path t\<rparr> =
      Ok \<lparr>status = 200, headers = hs @ [(''Content-Length'', show_nat (length b))], body = []\<rparr>"
  unfolding saga_path_def handle_saga [OF saga_name] respond_file_name
  using assms(1) hex_name by (auto simp: fs_read_def fs_metadata_def hs_def Let_def)

lemma handle_saga_missing:
  assumes "fs_node fs (dir @ [format_tenant_hex t @ ''.saga'']) = None"
  shows "handle json delivered fs fs dir root \<lparr>meth = Get, url = saga_path t\<rparr> = Ok (empty_response 404)"
    and "handle json delivered fs fs dir root \<lparr>meth = Head, url = saga_path t\<rparr> = Ok (empty_response 404)"
  unfolding saga_path_def handle_saga [OF saga_name] respond_file_name
  using assms hex_name by (auto simp: fs_read_def not_found_def)

lemma parse_time_show [simp]: "parse_time (show_i64 w) = Some w"
proof -
  have "- (2 ^ 63) \<le> sint w" "sint w < 2 ^ 63"
    using sint_ge [of w] sint_lt [of w] by simp_all
  then show ?thesis by (simp add: parse_time_def show_i64_def parse_i64_show_int)
qed

text \<open>
  The interface of a client: what its two operations return when the server it talks to
  answers in a certain way.
\<close>

locale distributor =
  fixes serves :: "'a \<Rightarrow> string \<Rightarrow> (request \<Rightarrow> net_error + response) \<Rightarrow> bool"
    and addr :: "'b \<Rightarrow> string"
    and get :: "'a \<Rightarrow> 'b \<Rightarrow> bytes \<Rightarrow> net_error + bytes"
    and stat :: "'a \<Rightarrow> 'b \<Rightarrow> bytes \<Rightarrow> net_error + i64 option"
  assumes get_ok: "serves a (addr c) h \<Longrightarrow> h \<lparr>meth = Get, url = saga_path t\<rparr> = Ok r \<Longrightarrow>
      status r = 200 \<Longrightarrow> get a c t = Ok (body r)"
    and get_404: "serves a (addr c) h \<Longrightarrow> h \<lparr>meth = Get, url = saga_path t\<rparr> = Ok r \<Longrightarrow>
      status r = 404 \<Longrightarrow> \<exists>m. get a c t = Err (Remote m)"
    and stat_ok: "serves a (addr c) h \<Longrightarrow> h \<lparr>meth = Head, url = saga_path t\<rparr> = Ok r \<Longrightarrow>
      status r = 200 \<Longrightarrow> stat a c t = Ok (Option.bind (map_of (headers r) ''Last-Modified'') parse_time)"
    and stat_404: "serves a (addr c) h \<Longrightarrow> h \<lparr>meth = Head, url = saga_path t\<rparr> = Ok r \<Longrightarrow>
      status r = 404 \<Longrightarrow> stat a c t = Ok None"
begin

lemma get_file:
  assumes "serves a (addr c) (handle json delivered fs fs dir root)"
    and "fs_node fs (dir @ [format_tenant_hex t @ ''.saga'']) = Some (File b m)"
  shows "get a c t = Ok b"
  using get_ok [OF assms(1) handle_saga_path(1) [OF assms(2)]] by (simp add: data_response_def)

lemma get_missing:
  assumes "serves a (addr c) (handle json delivered fs fs dir root)"
    and "fs_node fs (dir @ [format_tenant_hex t @ ''.saga'']) = None"
  shows "\<exists>m. get a c t = Err (Remote m)"
  using get_404 [OF assms(1) handle_saga_missing(1) [OF assms(2)]] by (simp add: empty_response_def)

lemma stat_file:
  assumes "serves a (addr c) (handle json delivered fs fs dir root)"
    and "fs_node fs (dir @ [format_tenant_hex t @ ''.saga'']) = Some (File b m)"
  shows "stat a c t = Ok (Some (mtime_secs \<lparr>len = of_nat (length b), modified = m\<rparr>))"
  using stat_ok [OF assms(1) handle_saga_path(2) [OF assms(2)]] by (simp add: file_headers_def)

lemma stat_missing:
  assumes "serves a (addr c) (handle json delivered fs fs dir root)"
    and "fs_node fs (dir @ [format_tenant_hex t @ ''.saga'']) = None"
  shows "stat a c t = Ok None"
  using stat_404 [OF assms(1) handle_saga_missing(2) [OF assms(2)]] by (simp add: empty_response_def)

end

interpretation sync: distributor ureq_serves base_url fetch head
proof
  fix U :: "'a ureq" and c :: saga_client and h :: "request \<Rightarrow> net_error + response" and t and r :: response
  assume s: "ureq_serves U (base_url c) h"
  show "h \<lparr>meth = Get, url = saga_path t\<rparr> = Ok r \<Longrightarrow> status r = 200 \<Longrightarrow> fetch U c t = Ok (body r)"
    and "h \<lparr>meth = Get, url = saga_path t\<rparr> = Ok r \<Longrightarrow> status r = 404 \<Longrightarrow> \<exists>m. fetch U c t = Err (Remote m)"
    using s unfolding ureq_serves_def fetch_def map_ureq_def by fastforce+
  show "h \<lparr>meth = Head, url = saga_path t\<rparr> = Ok r \<Longrightarrow> status r = 200 \<Longrightarrow>
      head U c t = Ok (Option.bind (map_of (headers r) ''Last-Modified'') parse_time)"
    and "h \<lparr>meth = Head, url = saga_path t\<rparr> = Ok r \<Longrightarrow> status r = 404 \<Longrightarrow> head U c t = Ok None"
    using s unfolding ureq_serves_def head_def by fastforce+
qed

interpretation async: distributor reqwest_serves async_base_url fetch_async head_async
proof
  fix R :: "('a, 'b) reqwest" and c :: async_saga_client and h :: "request \<Rightarrow> net_error + response" and t and r :: response
  assume s: "reqwest_serves R (async_base_url c) h"
  show "h \<lparr>meth = Get, url = saga_path t\<rparr> = Ok r \<Longrightarrow> status r = 200 \<Longrightarrow> fetch_async R c t = Ok (body r)"
    and "h \<lparr>meth = Get, url = saga_path t\<rparr> = Ok r \<Longrightarrow> status r = 404 \<Longrightarrow>
      \<exists>m. fetch_async R c t = Err (Remote m)"
    using s unfolding reqwest_serves_def fetch_async_def saga_path_async_eq error_for_status_def status_error_def
    by fastforce+
  have x: "\<exists>x. rq_head R (async_base_url c @ saga_path t) = Ok x \<and> rq_status R x = status r \<and>
      (\<forall>n. rq_header R x n = map_of (headers r) n)" if "h \<lparr>meth = Head, url = saga_path t\<rparr> = Ok r"
    using s that unfolding reqwest_serves_def by blast
  have "is_success R 200" using s by (simp add: reqwest_serves_def)
  with x show "h \<lparr>meth = Head, url = saga_path t\<rparr> = Ok r \<Longrightarrow> status r = 200 \<Longrightarrow>
      head_async R c t = Ok (Option.bind (map_of (headers r) ''Last-Modified'') parse_time)"
    by (auto simp: head_async_def error_for_status_def Let_def)
  from x show "h \<lparr>meth = Head, url = saga_path t\<rparr> = Ok r \<Longrightarrow> status r = 404 \<Longrightarrow> head_async R c t = Ok None"
    by (auto simp: head_async_def)
qed

section \<open>What the clients see\<close>

text \<open>The sample: both crates short-circuited to the sample server, over its own responses.\<close>

definition sample_handler :: "request \<Rightarrow> net_error + response" where
  "sample_handler = handle sample_json delivered sample_fs sample_fs [''s''] None"

definition direct_get :: "http_method \<Rightarrow> string \<Rightarrow> response" where
  "direct_get m u = (case sample_handler \<lparr>meth = m, url = u\<rparr> of Ok r \<Rightarrow> r | Err _ \<Rightarrow> empty_response 500)"

definition direct_ureq :: "response ureq" where
  "direct_ureq = (let ask = (\<lambda>m u. let r = direct_get m u in
       if status r < 400 then Ok r else Err (Status (status r) r)) in
     \<lparr>ureq_get = ask Get, ureq_head = ask Head, status_text = (\<lambda>_. []),
      read_to_end = (\<lambda>r. Ok (body r)), into_json = (\<lambda>_. Ok []),
      resp_header = (\<lambda>r. map_of (headers r))\<rparr>)"

definition direct_reqwest :: "(unit, response) reqwest" where
  "direct_reqwest =
     \<lparr>rq_get = (\<lambda>u. Ok (direct_get Get u)), rq_head = (\<lambda>u. Ok (direct_get Head u)), rq_status = status,
      is_success = (\<lambda>n. 200 \<le> n \<and> n < 300), canonical_reason = (\<lambda>_. None),
      rq_bytes = (\<lambda>r. Ok (body r)), rq_json = (\<lambda>_. Ok []), rq_header = (\<lambda>r. map_of (headers r)),
      err_status = (\<lambda>_. None), err_text = (\<lambda>_. [])\<rparr>"

lemma direct_serves:
  "ureq_serves direct_ureq [] sample_handler" "reqwest_serves direct_reqwest [] sample_handler"
  by (auto simp: ureq_serves_def reqwest_serves_def direct_ureq_def direct_reqwest_def direct_get_def
      Let_def)

text \<open>
  What the clients see of a server's directory while nobody writes to it: for a saga
  that is there, both fetch exactly its bytes and read its time in seconds; for one that is
  not, both report a remote error to a fetch and nothing to a look at its time.
\<close>

lemma clients_see_the_directory:
  assumes "ureq_serves U (base_url c) (handle json delivered fs fs dir root)"
    and "reqwest_serves R (async_base_url d) (handle json delivered fs fs dir root)"
  shows "case fs_node fs (dir @ [format_tenant_hex t @ ''.saga'']) of
      Some (File b m) \<Rightarrow>
        (let secs = mtime_secs \<lparr>len = of_nat (length b), modified = m\<rparr> in
         fetch U c t = Ok b \<and> fetch_async R d t = Ok b \<and>
         head U c t = Ok (Some secs) \<and> head_async R d t = Ok (Some secs))
    | None \<Rightarrow>
        (\<exists>e. fetch U c t = Err (Remote e)) \<and> (\<exists>e. fetch_async R d t = Err (Remote e)) \<and>
        head U c t = Ok None \<and> head_async R d t = Ok None
    | _ \<Rightarrow> True"
  using sync.get_file [OF assms(1)] async.get_file [OF assms(2)]
    sync.stat_file [OF assms(1)] async.stat_file [OF assms(2)]
    sync.get_missing [OF assms(1)] async.get_missing [OF assms(2)]
    sync.stat_missing [OF assms(1)] async.stat_missing [OF assms(2)]
  by (auto simp: Let_def split: option.split node.split)

end
