(* ===== verification/SagaMirror.thy ===== *)
theory SagaMirror
  imports SagaClientProps
begin

text \<open>
  Mirroring a server: a client lists the sagas, fetches those that are new, and fetches the
  member snapshot of a hansa. The interface \<open>distributor\<close> is extended by the two operations
  whose answers are JSON, and both clients satisfy it.
\<close>

section \<open>The index and the members\<close>

text \<open>The HTTP crates read back the JSON the server wrote.\<close>

definition ureq_reads :: "'r ureq \<Rightarrow> (saga_index_entry list \<Rightarrow> string + bytes) \<Rightarrow> bool" where
  "ureq_reads U json \<longleftrightarrow>
     (\<forall>x b es. read_to_end U x = Ok b \<longrightarrow> json es = Ok b \<longrightarrow> into_json U x = Ok es)"

definition reqwest_reads :: "('e, 'r) reqwest \<Rightarrow> (saga_index_entry list \<Rightarrow> string + bytes) \<Rightarrow> bool" where
  "reqwest_reads R json \<longleftrightarrow>
     (\<forall>x b es. rq_bytes R x = Ok b \<longrightarrow> json es = Ok b \<longrightarrow> rq_json R x = Ok es)"

lemma saga_index_row:
  assumes "saga_index fs fs dir = Ok es" and "e \<in> set es"
  shows "length (tenant_id_hex e) = 32 \<and> all_hex (tenant_id_hex e) \<and>
    (\<exists>meta. entry_metadata fs (dir @ [tenant_id_hex e @ ''.saga'']) = Ok meta \<and>
       entry_bytes e = len meta \<and> last_modified e = mtime_secs meta)"
proof -
  from assms obtain items rows where "index_entries fs dir items = Ok rows" "e \<in> set rows"
    by (auto simp: saga_index_def res_bind_eq_Ok split: if_splits)
  then obtain names where "\<lparr>tenant_id_hex = tenant_id_hex e, entry_bytes = entry_bytes e, last_modified = last_modified e\<rparr>
      \<in> set (List.map_filter (index_row fs dir) names)"
    by (cases e) (auto dest: index_entries_rowsD)
  then show ?thesis unfolding in_index_rows by blast
qed

text \<open>A name of hex digits is a tenant's, as the clients write it, or has an upper-case digit.\<close>

definition upper_hex :: "char \<Rightarrow> bool" where
  "upper_hex c \<longleftrightarrow> 65 \<le> (of_char c :: nat) \<and> (of_char c :: nat) \<le> 70"

lemma lower_hex_digit:
  assumes "is_ascii_hexdigit c" and "\<not> upper_hex c"
  shows "\<exists>n < 16. c = hex_digit n"
proof -
  define n where "n = (of_char c :: nat)"
  then have c: "c = char_of n" by simp
  from assms consider "48 \<le> n" "n \<le> 57" | "97 \<le> n" "n \<le> 102"
    by (auto simp: is_ascii_hexdigit_def upper_hex_def Let_def n_def)
  then show ?thesis
  proof cases
    case 1
    then have "n - 48 < 10" by linarith
    with 1 c show ?thesis by (intro exI [of _ "n - 48"]) (simp add: hex_digit_def)
  next
    case 2
    then have "\<not> n - 87 < 10" "n - 87 < 16" by linarith+
    with 2 c show ?thesis by (intro exI [of _ "n - 87"]) (simp add: hex_digit_def)
  qed
qed

lemma tenant_hex_lower: "c \<in> set (format_tenant_hex t) \<Longrightarrow> \<not> upper_hex c"
proof -
  have "\<not> upper_hex (hex_digit n)" if "n < 16" for n
    using that by (simp add: upper_hex_def of_char_hex_digit)
  then show "c \<in> set (format_tenant_hex t) \<Longrightarrow> \<not> upper_hex c"
    using hex2_nibbles by (auto simp: format_tenant_hex_def hex2_def)
qed

lemma lower_hex_byte:
  assumes "is_ascii_hexdigit a" "\<not> upper_hex a" "is_ascii_hexdigit b" "\<not> upper_hex b"
  shows "\<exists>w. hex2 w = [a, b]"
proof -
  obtain x y where xy: "x < 16" "y < 16" "a = hex_digit x" "b = hex_digit y"
    using lower_hex_digit assms by blast
  then have "unat (of_nat (16 * x + y) :: u8) = 16 * x + y" unfolding unat_of_nat by simp
  with xy show ?thesis
    by (intro exI [of _ "of_nat (16 * x + y)"]) (simp add: hex2_def del: of_nat_add of_nat_mult)
qed

lemma lower_hex_tenant:
  "length h = 2 * n \<Longrightarrow> all_hex h \<Longrightarrow> \<forall>c \<in> set h. \<not> upper_hex c \<Longrightarrow>
   \<exists>t. length t = n \<and> h = format_tenant_hex t"
proof (induction n arbitrary: h)
  case 0
  then show ?case by (simp add: format_tenant_hex_def)
next
  case (Suc n)
  then obtain a b g where h: "h = a # b # g" by (auto simp: length_Suc_conv)
  with Suc obtain t where t: "length t = n" "g = format_tenant_hex t" by (auto simp: all_hex_def)
  from h Suc.prems lower_hex_byte [of a b] obtain w where "hex2 w = [a, b]" by (auto simp: all_hex_def)
  with h t show ?case by (intro exI [of _ "w # t"]) (simp add: format_tenant_hex_def)
qed

lemma handle_index:
  assumes "saga_index fs fs dir = Ok es" and "json es = Ok b"
  shows "handle json delivered fs fs dir root \<lparr>meth = Get, url = ''/sagas''\<rparr> =
    Ok (data_response b [(''Content-Type'', ''application/json'')])"
  using assms by (simp add: handle_def respond_index_def Let_def)

text \<open>What a hansa's members are on the server, when there is a snapshot or none.\<close>

definition snapshot :: "fs \<Rightarrow> path \<Rightarrow> string \<Rightarrow> bytes option" where
  "snapshot fs base hex =
     (case fs_node fs (base @ [hex, ''members.snap'']) of
        None \<Rightarrow> Some (as_bytes ''[]'') | Some (Unreadable _) \<Rightarrow> Some (as_bytes ''[]'')
      | Some (File b _) \<Rightarrow> Some b | _ \<Rightarrow> None)"

lemma handle_snapshot:
  assumes "length hex = 64" "all_hex hex" "snapshot fs base hex = Some b"
  shows "handle json delivered fs fs dir (Some base) \<lparr>meth = Get, url = ''/hansa/'' @ hex @ ''/members''\<rparr> =
    Ok \<lparr>status = 200, headers = [(''Content-Type'', ''application/json'')], body = b\<rparr>"
  unfolding handle_members using assms by (auto simp: snapshot_def split: option.splits node.splits)

section \<open>The contract of the clients\<close>

locale mirror = distributor serves addr get stat
  for serves :: "'a \<Rightarrow> string \<Rightarrow> (request \<Rightarrow> net_error + response) \<Rightarrow> bool"
    and addr :: "'b \<Rightarrow> string"
    and get :: "'a \<Rightarrow> 'b \<Rightarrow> bytes \<Rightarrow> net_error + bytes"
    and stat :: "'a \<Rightarrow> 'b \<Rightarrow> bytes \<Rightarrow> net_error + i64 option" +
  fixes reads :: "'a \<Rightarrow> (saga_index_entry list \<Rightarrow> string + bytes) \<Rightarrow> bool"
    and catalogue :: "'a \<Rightarrow> 'b \<Rightarrow> net_error + saga_index_entry list"
    and members :: "'a \<Rightarrow> 'b \<Rightarrow> string \<Rightarrow> net_error + bytes"
  assumes catalogue_ok: "serves a (addr c) h \<Longrightarrow> reads a json \<Longrightarrow>
      h \<lparr>meth = Get, url = ''/sagas''\<rparr> = Ok r \<Longrightarrow> status r = 200 \<Longrightarrow> json es = Ok (body r) \<Longrightarrow>
      catalogue a c = Ok es"
    and members_ok: "serves a (addr c) h \<Longrightarrow> length hex = 64 \<Longrightarrow> all_hex hex \<Longrightarrow>
      h \<lparr>meth = Get, url = ''/hansa/'' @ hex @ ''/members''\<rparr> = Ok r \<Longrightarrow> status r = 200 \<Longrightarrow>
      members a c hex = Ok (body r)"
    and members_bad: "\<not> (length hex = 64 \<and> all_hex hex) \<Longrightarrow> members a c hex = Err (bad_hansa_id hex)"
begin

lemma catalogue_index:
  assumes "serves a (addr c) (handle json delivered fs fs dir root)" and "reads a json"
    and "saga_index fs fs dir = Ok es" and "json es = Ok b"
  shows "catalogue a c = Ok es"
  using catalogue_ok [OF assms(1,2) handle_index [where json = json, OF assms(3,4)]] assms(4)
  by (simp add: data_response_def)

lemma members_snapshot:
  assumes "serves a (addr c) (handle json delivered fs fs dir (Some base))" and "snapshot fs base hex = Some b"
  shows "members a c hex = (if length hex = 64 \<and> all_hex hex then Ok b else Err (bad_hansa_id hex))"
  using members_ok [OF assms(1) _ _ handle_snapshot [OF _ _ assms(2)]] members_bad by auto

text \<open>A row that is a file is fetched as announced; one that is a link announces itself.\<close>

lemma row_fetched:
  assumes "serves a (addr c) (handle json delivered fs fs dir root)"
    and "saga_index fs fs dir = Ok es" and "e \<in> set es" and "tenant_id_hex e = format_tenant_hex t"
  shows "case fs_entry fs (dir @ [tenant_id_hex e @ ''.saga'']) of
      Some (Plain (File b m)) \<Rightarrow> entry_bytes e = of_nat (length b) \<and>
        get a c t = Ok b \<and> stat a c t = Ok (Some (last_modified e))
    | Some (Link meta _) \<Rightarrow> entry_bytes e = len meta \<and> last_modified e = mtime_secs meta
    | Some (Plain (Unreadable _)) \<Rightarrow> False
    | Some (Plain _) \<Rightarrow> True
    | None \<Rightarrow> False"
proof -
  from saga_index_row [OF assms(2,3)] obtain meta where
    meta: "entry_metadata fs (dir @ [tenant_id_hex e @ ''.saga'']) = Ok meta"
      "entry_bytes e = len meta" "last_modified e = mtime_secs meta" by blast
  show ?thesis
  proof (cases "\<exists>b m. fs_entry fs (dir @ [tenant_id_hex e @ ''.saga'']) = Some (Plain (File b m))")
    case True
    then obtain b m where f: "fs_entry fs (dir @ [tenant_id_hex e @ ''.saga'']) = Some (Plain (File b m))" by blast
    then have "fs_node fs (dir @ [format_tenant_hex t @ ''.saga'']) = Some (File b m)"
      by (simp add: assms(4) fs_node_def)
    from get_file [OF assms(1) this] stat_file [OF assms(1) this] f meta show ?thesis
      by (auto simp: entry_metadata_def)
  next
    case False
    with meta show ?thesis
      by (auto simp: entry_metadata_def split: option.splits dir_entry.splits node.splits)
  qed
qed

end

interpretation sync_mirror: mirror ureq_serves base_url fetch head ureq_reads list_sagas fetch_members_raw
proof
  fix U :: "'a ureq" and c :: saga_client and h :: "request \<Rightarrow> net_error + response" and r :: response
    and json es hex
  assume s: "ureq_serves U (base_url c) h"
  show "ureq_reads U json \<Longrightarrow> h \<lparr>meth = Get, url = ''/sagas''\<rparr> = Ok r \<Longrightarrow> status r = 200 \<Longrightarrow>
      json es = Ok (body r) \<Longrightarrow> list_sagas U c = Ok es"
    using s unfolding ureq_serves_def ureq_reads_def list_sagas_def by fastforce
  show "length hex = 64 \<Longrightarrow> all_hex hex \<Longrightarrow> h \<lparr>meth = Get, url = ''/hansa/'' @ hex @ ''/members''\<rparr> = Ok r \<Longrightarrow>
      status r = 200 \<Longrightarrow> fetch_members_raw U c hex = Ok (body r)"
    using s unfolding ureq_serves_def fetch_members_raw_def by fastforce
qed (auto simp: fetch_members_raw_def)

interpretation async_mirror: mirror reqwest_serves async_base_url fetch_async head_async reqwest_reads list_async fetch_members_async
proof
  fix R :: "('a, 'b) reqwest" and c :: async_saga_client and h :: "request \<Rightarrow> net_error + response" and r :: response
    and json es hex
  assume s: "reqwest_serves R (async_base_url c) h"
  have ok: "\<exists>x. rq_get R (async_base_url c @ u) = Ok x \<and> error_for_status R x = Ok x \<and> rq_bytes R x = Ok (body r)"
    if "h \<lparr>meth = Get, url = u\<rparr> = Ok r" "status r = 200" for u
    using s that unfolding reqwest_serves_def error_for_status_def by fastforce
  show "reqwest_reads R json \<Longrightarrow> h \<lparr>meth = Get, url = ''/sagas''\<rparr> = Ok r \<Longrightarrow> status r = 200 \<Longrightarrow>
      json es = Ok (body r) \<Longrightarrow> list_async R c = Ok es"
    using ok [of "''/sagas''"] unfolding reqwest_reads_def list_async_def by fastforce
  show "length hex = 64 \<Longrightarrow> all_hex hex \<Longrightarrow> h \<lparr>meth = Get, url = ''/hansa/'' @ hex @ ''/members''\<rparr> = Ok r \<Longrightarrow>
      status r = 200 \<Longrightarrow> fetch_members_async R c hex = Ok (body r)"
    using ok [of "''/hansa/'' @ hex @ ''/members''"] unfolding fetch_members_async_def by fastforce
qed (auto simp: fetch_members_async_def)

section \<open>What callers can rely on\<close>

text \<open>
  C20: mirroring a server nobody writes to: both clients list exactly the server's index. A
  row whose name has an upper-case digit is no tenant's, and no client can ask for it; every
  other is some tenant's, and if its entry is a file, both clients fetch as many bytes as the
  row says and see the time it says, while the row of a link has the size and the time of the
  link. Of any tenant both fetch exactly the bytes of the file its saga is or leads to and read
  its time in seconds or, when there is none, report a remote error to a fetch and nothing to
  a look at its time; and both get the member snapshot of a hansa, an empty array when there
  is none, and refuse an id that is not 64 hex digits without asking.
\<close>

theorem clients_mirror_the_server:
  assumes "ureq_serves U (base_url c) (handle json delivered fs fs dir (Some base))" and "ureq_reads U json"
    and "reqwest_serves R (async_base_url d) (handle json delivered fs fs dir (Some base))"
    and "reqwest_reads R json"
    and "saga_index fs fs dir = Ok es" and "json es = Ok js"
  shows "list_sagas U c = Ok es \<and> list_async R d = Ok es \<and>
    (\<forall>e \<in> set es.
       if \<exists>x \<in> set (tenant_id_hex e). upper_hex x then \<forall>t. tenant_id_hex e \<noteq> format_tenant_hex t
       else \<exists>t. length t = 16 \<and> tenant_id_hex e = format_tenant_hex t) \<and>
    (\<forall>e \<in> set es. \<forall>t. tenant_id_hex e = format_tenant_hex t \<longrightarrow>
       (case fs_entry fs (dir @ [tenant_id_hex e @ ''.saga'']) of
          Some (Plain (File b m)) \<Rightarrow> entry_bytes e = of_nat (length b) \<and>
            fetch U c t = Ok b \<and> fetch_async R d t = Ok b \<and>
            head U c t = Ok (Some (last_modified e)) \<and> head_async R d t = Ok (Some (last_modified e))
        | Some (Link meta _) \<Rightarrow> entry_bytes e = len meta \<and> last_modified e = mtime_secs meta
        | Some (Plain (Unreadable _)) \<Rightarrow> False
        | Some (Plain _) \<Rightarrow> True
        | None \<Rightarrow> False)) \<and>
    (\<forall>t. case fs_node fs (dir @ [format_tenant_hex t @ ''.saga'']) of
       Some (File b m) \<Rightarrow>
         (let secs = mtime_secs \<lparr>len = of_nat (length b), modified = m\<rparr> in
          fetch U c t = Ok b \<and> fetch_async R d t = Ok b \<and>
          head U c t = Ok (Some secs) \<and> head_async R d t = Ok (Some secs))
     | None \<Rightarrow>
         (\<exists>e. fetch U c t = Err (Remote e)) \<and> (\<exists>e. fetch_async R d t = Err (Remote e)) \<and>
         head U c t = Ok None \<and> head_async R d t = Ok None
     | _ \<Rightarrow> True) \<and>
    (\<forall>hex. case snapshot fs base hex of
       Some b \<Rightarrow>
         (let got = (if length hex = 64 \<and> all_hex hex then Ok b else Err (bad_hansa_id hex)) in
          fetch_members_raw U c hex = got \<and> fetch_members_async R d hex = got)
     | None \<Rightarrow> True)"
proof (intro conjI ballI allI impI)
  show "list_sagas U c = Ok es" by (rule sync_mirror.catalogue_index [OF assms(1,2,5,6)])
  show "list_async R d = Ok es" by (rule async_mirror.catalogue_index [OF assms(3,4,5,6)])
next
  fix e
  assume "e \<in> set es"
  then have row: "length (tenant_id_hex e) = 2 * 16" "all_hex (tenant_id_hex e)"
    using saga_index_row [OF assms(5)] by auto
  show "if \<exists>x \<in> set (tenant_id_hex e). upper_hex x
      then \<forall>t. tenant_id_hex e \<noteq> format_tenant_hex t
      else \<exists>t. length t = 16 \<and> tenant_id_hex e = format_tenant_hex t"
    using lower_hex_tenant [OF row] tenant_hex_lower by auto
next
  fix e t
  assume e: "e \<in> set es" "tenant_id_hex e = format_tenant_hex t"
  show "case fs_entry fs (dir @ [tenant_id_hex e @ ''.saga'']) of
          Some (Plain (File b m)) \<Rightarrow> entry_bytes e = of_nat (length b) \<and>
            fetch U c t = Ok b \<and> fetch_async R d t = Ok b \<and>
            head U c t = Ok (Some (last_modified e)) \<and> head_async R d t = Ok (Some (last_modified e))
        | Some (Link meta _) \<Rightarrow> entry_bytes e = len meta \<and> last_modified e = mtime_secs meta
        | Some (Plain (Unreadable _)) \<Rightarrow> False
        | Some (Plain _) \<Rightarrow> True
        | None \<Rightarrow> False"
    using sync_mirror.row_fetched [OF assms(1,5) e] async_mirror.row_fetched [OF assms(3,5) e]
    by (auto split: option.splits dir_entry.splits node.splits)
next
  fix t
  show "case fs_node fs (dir @ [format_tenant_hex t @ ''.saga'']) of
       Some (File b m) \<Rightarrow>
         (let secs = mtime_secs \<lparr>len = of_nat (length b), modified = m\<rparr> in
          fetch U c t = Ok b \<and> fetch_async R d t = Ok b \<and>
          head U c t = Ok (Some secs) \<and> head_async R d t = Ok (Some secs))
     | None \<Rightarrow>
         (\<exists>e. fetch U c t = Err (Remote e)) \<and> (\<exists>e. fetch_async R d t = Err (Remote e)) \<and>
         head U c t = Ok None \<and> head_async R d t = Ok None
     | _ \<Rightarrow> True" using clients_see_the_directory [OF assms(1,3), of t] .
next
  fix hex
  show "case snapshot fs base hex of
       Some b \<Rightarrow>
         (let got = (if length hex = 64 \<and> all_hex hex then Ok b else Err (bad_hansa_id hex)) in
          fetch_members_raw U c hex = got \<and> fetch_members_async R d hex = got)
     | None \<Rightarrow> True"
    using sync_mirror.members_snapshot [OF assms(1)] async_mirror.members_snapshot [OF assms(3)]
    by (simp add: Let_def split: option.split)
qed

text \<open>
  The sample: the sample server with a members root; its JSON is the number of rows in unary,
  and both crates parse it into the index of the server.
\<close>

definition count_json :: "saga_index_entry list \<Rightarrow> string + bytes" where
  "count_json es =
     (if es = [\<lparr>tenant_id_hex = sample_hex, entry_bytes = 2, last_modified = 5\<rparr>] then Ok [1] else Err ''other'')"

definition mirrored :: "http_method \<Rightarrow> string \<Rightarrow> response" where
  "mirrored m u =
     (case handle count_json delivered sample_fs sample_fs [''s''] (Some [''m'']) \<lparr>meth = m, url = u\<rparr> of
        Ok r \<Rightarrow> r | Err _ \<Rightarrow> empty_response 500)"

definition row_of_json :: "response \<Rightarrow> saga_index_entry list" where
  "row_of_json r = [\<lparr>tenant_id_hex = sample_hex, entry_bytes = 2, last_modified = 5\<rparr>]"

definition mirror_ureq :: "response ureq" where
  "mirror_ureq = (let ask = (\<lambda>m u. let r = mirrored m u in
       if status r < 400 then Ok r else Err (Status (status r) r)) in
     direct_ureq\<lparr>ureq_get := ask Get, ureq_head := ask Head, into_json := (\<lambda>r. Ok (row_of_json r))\<rparr>)"

definition mirror_reqwest :: "(unit, response) reqwest" where
  "mirror_reqwest = direct_reqwest
     \<lparr>rq_get := (\<lambda>u. Ok (mirrored Get u)), rq_head := (\<lambda>u. Ok (mirrored Head u)),
      rq_json := (\<lambda>r. Ok (row_of_json r))\<rparr>"

lemma mirror_serves:
  "ureq_serves mirror_ureq [] (handle count_json delivered sample_fs sample_fs [''s''] (Some [''m'']))"
  "reqwest_serves mirror_reqwest [] (handle count_json delivered sample_fs sample_fs [''s''] (Some [''m'']))"
  "ureq_reads mirror_ureq count_json" "reqwest_reads mirror_reqwest count_json"
  by (auto simp: ureq_serves_def reqwest_serves_def mirror_ureq_def mirror_reqwest_def direct_ureq_def
      direct_reqwest_def mirrored_def ureq_reads_def reqwest_reads_def count_json_def row_of_json_def
      Let_def split: if_splits)

theorem clients_mirror_the_server_witness:
  "list_sagas mirror_ureq \<lparr>base_url = []\<rparr> =
     Ok [\<lparr>tenant_id_hex = sample_hex, entry_bytes = 2, last_modified = 5\<rparr>] \<and>
   fetch_members_async mirror_reqwest \<lparr>async_base_url = []\<rparr> (sample_hex @ sample_hex) = Ok (as_bytes ''[]'')"
proof -
  have idx: "saga_index sample_fs sample_fs [''s''] =
      Ok [\<lparr>tenant_id_hex = sample_hex, entry_bytes = 2, last_modified = 5\<rparr>]"
  proof -
    have names: "fs_read_dir sample_fs [''s''] = Ok (map Ok [sample_hex @ ''.saga'', ''README''])"
      by (simp add: fs_read_dir_def names_in_def fs_node_def fs_entry_def sample_fs_def plain_dir_def
          map_filter_simps child_of_def)
    have "index_hex (sample_hex @ ''.saga'') = Some sample_hex"
      using sample_hex_ok by (simp add: index_hex_Some)
    moreover have "index_hex ''README'' = None"
      by (simp add: index_hex_def suffix_def)
    moreover have "entry_metadata sample_fs [''s'', sample_hex @ ''.saga''] = Ok \<lparr>len = 2, modified = Some 5000000000\<rparr>"
      by (simp add: entry_metadata_def fs_entry_def sample_fs_def)
    ultimately have "index_entries sample_fs [''s''] (map Ok [sample_hex @ ''.saga'', ''README'']) =
        Ok [\<lparr>tenant_id_hex = sample_hex, entry_bytes = 2, last_modified = 5\<rparr>]"
      by (simp add: mtime_secs_def)
    moreover have "fs_exists sample_fs [''s'']" by (simp add: fs_exists_def fs_metadata_def fs_node_def fs_entry_def sample_fs_def plain_dir_def)
    ultimately show ?thesis using names by (simp add: saga_index_def)
  qed
  have snap: "snapshot sample_fs [''m''] (sample_hex @ sample_hex) = Some (as_bytes ''[]'')"
    by (simp add: snapshot_def fs_node_def fs_entry_def sample_fs_def)
  have hex: "length (sample_hex @ sample_hex) = 64" "all_hex (sample_hex @ sample_hex)"
    using sample_hex_ok by (auto simp: all_hex_def)
  have serves: "ureq_serves mirror_ureq (base_url \<lparr>base_url = []\<rparr>)
        (handle count_json delivered sample_fs sample_fs [''s''] (Some [''m'']))"
      "reqwest_serves mirror_reqwest (async_base_url \<lparr>async_base_url = []\<rparr>)
        (handle count_json delivered sample_fs sample_fs [''s''] (Some [''m'']))"
    using mirror_serves by simp_all
  have "count_json [\<lparr>tenant_id_hex = sample_hex, entry_bytes = 2, last_modified = 5\<rparr>] = Ok [1]"
    by (simp add: count_json_def)
  note mirrors = clients_mirror_the_server
    [OF serves(1) mirror_serves(3) serves(2) mirror_serves(4) idx this]
  from mirrors have "list_sagas mirror_ureq \<lparr>base_url = []\<rparr> =
      Ok [\<lparr>tenant_id_hex = sample_hex, entry_bytes = 2, last_modified = 5\<rparr>]" by (rule conjunct1)
  moreover from mirrors have "fetch_members_async mirror_reqwest \<lparr>async_base_url = []\<rparr> (sample_hex @ sample_hex) =
      Ok (as_bytes ''[]'')"
    using hex snap by (elim conjE allE [of _ "sample_hex @ sample_hex"]) (simp add: Let_def)
  ultimately show ?thesis ..
qed

end
