(* ===== verification/SagaSave.thy ===== *)
theory SagaSave
  imports SagaClient
begin

text \<open>
  Saving a saga, one effect on the file system at a time: the steps of \<open>fetch_to_path\<close>
  after the fetch, with the write cut into as many pieces as the system likes. The process
  may be killed, or meet an error, between any two steps; what it leaves behind is then the
  file system of a reachable state.
\<close>

section \<open>The steps\<close>

datatype phase = Fetched | DirsMade | Writing nat | Saved | Failed

inductive save_step ::
  "nat \<Rightarrow> int option \<Rightarrow> metadata \<Rightarrow> bytes \<Rightarrow> path \<Rightarrow> phase \<times> fs \<Rightarrow> phase \<times> fs \<Rightarrow> bool"
  for pid now dm b dest where
  dirs: "path_parent dest = Some parent \<Longrightarrow> create_dir_all dm parent fs = (Ok (), fs') \<Longrightarrow>
    save_step pid now dm b dest (Fetched, fs) (DirsMade, fs')"
| dirs_failed: "path_parent dest = Some parent \<Longrightarrow> create_dir_all dm parent fs = (Err e, fs') \<Longrightarrow>
    save_step pid now dm b dest (Fetched, fs) (Failed, fs')"
| opened: "fs_write now (tmp_path pid dest) [] fs = (Ok (), fs') \<Longrightarrow>
    save_step pid now dm b dest (DirsMade, fs) (Writing 0, fs')"
| written: "n \<le> m \<Longrightarrow> m \<le> length b \<Longrightarrow> fs_write now (tmp_path pid dest) (take m b) fs = (Ok (), fs') \<Longrightarrow>
    save_step pid now dm b dest (Writing n, fs) (Writing m, fs')"
| renamed: "n = length b \<Longrightarrow> fs_rename (tmp_path pid dest) dest fs = (Ok (), fs') \<Longrightarrow>
    save_step pid now dm b dest (Writing n, fs) (Saved, fs')"

section \<open>The temporary name\<close>

lemma split_name_some: "split_name n = (st, Some e) \<Longrightarrow> n = st @ CHR ''.'' # e"
proof -
  assume a: "split_name n = (st, Some e)"
  then obtain i where i: "rfind CHR ''.'' n = Some i" "st = take i n" "e = drop (i + 1) n"
    by (auto simp: split_name_def split: option.splits if_splits)
  from i(1) obtain a b where "n = a @ CHR ''.'' # b" "length a = i"
    by (auto simp: rfind_eq_Some)
  with i show ?thesis by auto
qed

lemma split_name_none: "split_name n = (st, None) \<Longrightarrow> st = n"
  by (auto simp: split_name_def split: option.splits if_splits)

lemma tmp_suffix_valid: "utf8_valid (''saga.tmp.'' @ show_nat pid)"
proof (rule utf8_valid_ascii, rule ballI)
  fix c assume "c \<in> set (''saga.tmp.'' @ show_nat pid)"
  then consider "c \<in> set ''saga.tmp.''" | "c \<in> set (show_nat pid)" by auto
  then show "of_char c < (0x80 :: u8)"
    by cases (auto simp: word_less_nat_alt unat_of_char dest: show_nat_digit_range)
qed

lemma tmp_path_props:
  assumes "dest \<noteq> []"
  shows "tmp_path pid dest \<noteq> dest" and "tmp_path pid dest \<noteq> []"
    and "butlast (tmp_path pid dest) = butlast dest"
proof -
  obtain st ex where sp: "split_name (last dest) = (st, ex)" by (cases "split_name (last dest)")
  let ?e = "case ex of Some e \<Rightarrow> if utf8_valid e then e else ''saga'' | None \<Rightarrow> ''saga''"
  have tmp: "tmp_path pid dest = butlast dest @ [st @ CHR ''.'' # ?e @ ''.tmp.'' @ show_nat pid]"
    using assms sp by (simp add: tmp_path_def path_with_extension_def path_extension_def)
  then show "tmp_path pid dest \<noteq> []" and "butlast (tmp_path pid dest) = butlast dest" by simp_all
  have "st @ CHR ''.'' # ?e @ ''.tmp.'' @ show_nat pid \<noteq> last dest"
  proof
    assume eq: "st @ CHR ''.'' # ?e @ ''.tmp.'' @ show_nat pid = last dest"
    show False
    proof (cases ex)
      case None
      with sp have "st = last dest" by (simp add: split_name_none)
      with eq show False by simp
    next
      case (Some e)
      with sp have "last dest = st @ CHR ''.'' # e" by (simp add: split_name_some)
      with eq have "?e @ ''.tmp.'' @ show_nat pid = e" by simp
      have "\<not> utf8_valid e"
      proof
        assume "utf8_valid e"
        with Some \<open>?e @ ''.tmp.'' @ show_nat pid = e\<close> show False by simp
      qed
      with Some \<open>?e @ ''.tmp.'' @ show_nat pid = e\<close>
      have "''saga'' @ ''.tmp.'' @ show_nat pid = e" by (simp only: option.case if_False)
      then have "utf8_valid e" using tmp_suffix_valid [of pid] by (simp only: append_Cons append_Nil)
      with \<open>\<not> utf8_valid e\<close> show False by contradiction
    qed
  qed
  then have "last (tmp_path pid dest) \<noteq> last dest" unfolding tmp by simp
  then show "tmp_path pid dest \<noteq> dest" by auto
qed

section \<open>The invariant\<close>

lemma fs_write_Ok: "fs_write now p b fs = (Ok (), fs') \<Longrightarrow> fs' = fs_put p (overwrite (File b now) (fs_entry fs p)) fs"
  by (auto simp: fs_write_def split: option.splits node.splits if_splits)

lemma fs_write_Err: "fs_write now p b fs = (Err e, fs') \<Longrightarrow> fs' = fs"
  by (auto simp: fs_write_def split: option.splits node.splits if_splits)

lemma fs_rename_Ok:
  "fs_rename p q fs = (Ok (), fs') \<Longrightarrow> \<exists>n. fs_entry fs p = Some n \<and> fs' = fs_put q n (fs_del p fs)"
  by (auto simp: fs_rename_def split: option.splits dir_entry.splits node.splits)

lemma fs_rename_Err: "fs_rename p q fs = (Err e, fs') \<Longrightarrow> fs' = fs"
  by (auto simp: fs_rename_def split: option.splits dir_entry.splits node.splits)

text \<open>The files of a file system other than the two the save works on.\<close>

definition keeps_files :: "nat \<Rightarrow> path \<Rightarrow> fs \<Rightarrow> fs \<Rightarrow> bool" where
  "keeps_files pid dest fs0 fs \<longleftrightarrow>
     (\<forall>q c m. q \<noteq> dest \<longrightarrow> q \<noteq> tmp_path pid dest \<longrightarrow> fs_node fs0 q = Some (File c m) \<longrightarrow>
        fs_node fs q = Some (File c m))"

definition save_inv :: "nat \<Rightarrow> int option \<Rightarrow> bytes \<Rightarrow> path \<Rightarrow> fs \<Rightarrow> phase \<times> fs \<Rightarrow> bool" where
  "save_inv pid now b dest fs0 s \<longleftrightarrow>
     (case s of (ph, fs) \<Rightarrow>
       (if ph = Fetched then fs = fs0
        else
          dest \<noteq> [] \<and> keeps_files pid dest fs0 fs \<and>
          fs_node fs dest = (if ph = Saved then Some (File b now) else fs_node fs0 dest) \<and>
          (\<forall>n. ph = Writing n \<longrightarrow> fs_node fs (tmp_path pid dest) = Some (File (take n b) now)) \<and>
          (ph = Saved \<longrightarrow> fs_node fs (tmp_path pid dest) = None)))"

lemma parent_not_root: "path_parent dest = Some parent \<Longrightarrow> dest \<noteq> [] \<and> length parent < length dest"
  by (auto simp: path_parent_def split: if_splits)

lemma dirs_keep:
  assumes "path_parent dest = Some parent" and "create_dir_all dm parent fs = (r, fs')"
  shows "dest \<noteq> []" and "keeps_files pid dest fs fs'" and "fs_node fs' dest = fs_node fs dest"
  using parent_not_root [OF assms(1)] assms(2) make_dirs_files [of dm "[]" parent fs r fs']
    create_dir_all_other [OF assms(2), of dest]
  by (auto simp: keeps_files_def create_dir_all_def)

lemma put_keeps:
  "keeps_files pid dest fs0 fs \<Longrightarrow> dest \<noteq> [] \<Longrightarrow>
   keeps_files pid dest fs0 (fs_put (tmp_path pid dest) n fs)"
  using tmp_path_props(2) [of dest pid] by (simp add: keeps_files_def)

lemma save_inv_step:
  "save_step pid now dm b dest s t \<Longrightarrow> save_inv pid now b dest fs0 s \<Longrightarrow> save_inv pid now b dest fs0 t"
proof (induction rule: save_step.induct)
  case (dirs parent fs fs')
  from dirs_keep [OF dirs(1,2)] dirs(3) show ?case by (simp add: save_inv_def)
next
  case (dirs_failed parent fs e fs')
  from dirs_keep [OF dirs_failed(1,2)] dirs_failed(3) show ?case by (simp add: save_inv_def)
next
  case (opened fs fs')
  then show ?case
    using fs_write_Ok [OF opened(1)] tmp_path_props [of dest pid]
    by (simp add: save_inv_def put_keeps)
next
  case (written n m fs fs')
  then show ?case
    using fs_write_Ok [OF written(3)] tmp_path_props [of dest pid]
    by (simp add: save_inv_def put_keeps)
next
  case (renamed n fs fs')
  from fs_rename_Ok [OF renamed(2)] obtain nd where
    nd: "fs_entry fs (tmp_path pid dest) = Some nd" "fs' = fs_put dest nd (fs_del (tmp_path pid dest) fs)"
    by blast
  with renamed(1,3) have "follow nd = Some (File b now)" by (simp add: save_inv_def fs_node_entry)
  with nd renamed(3) show ?case
    using tmp_path_props [of dest pid] by (simp add: save_inv_def keeps_files_def)
qed

interpretation saving: invariant "Pair Fetched" "save_step pid now dm b dest" "save_inv pid now b dest" for pid now dm b dest
  by standard (auto simp: save_inv_def [of _ _ _ _ _ "(Fetched, _)"] intro: save_inv_step)

section \<open>What callers can rely on\<close>

text \<open>The sample: two bytes saved over an older file.\<close>

definition fresh_dir :: metadata where
  "fresh_dir = \<lparr>len = 4096, modified = Some 0\<rparr>"

definition old_fs :: fs where
  "old_fs = [([''d''], Plain (Dir fresh_dir None)), ([''d'', ''x.saga''], Plain (File [9] None))]"

lemma old_fs_tmp: "tmp_path 3 [''d'', ''x.saga''] = [''d'', ''x.saga.tmp.3'']"
  by code_simp

text \<open>
  C17: the save is atomic: whenever the process stops, between any two steps and after any
  piece of the write, the destination is as it was before or holds all the bytes, and no
  other file but the temporary one has changed.
\<close>

theorem save_atomic:
  assumes "reachable (Fetched, fs0) (save_step pid now dm b dest) (ph, fs)"
  shows "(fs_node fs dest = fs_node fs0 dest \<or> fs_node fs dest = Some (File b now)) \<and>
    (ph = Saved \<longrightarrow> fs_node fs dest = Some (File b now) \<and> fs_node fs (tmp_path pid dest) = None) \<and>
    (\<forall>q c m. q \<noteq> dest \<longrightarrow> q \<noteq> tmp_path pid dest \<longrightarrow> fs_node fs0 q = Some (File c m) \<longrightarrow>
       fs_node fs q = Some (File c m))"
  using saving.reachable_inv [OF assms]
  by (cases "ph = Fetched") (simp_all add: save_inv_def keeps_files_def)

theorem save_atomic_witness:
  "\<exists>fs. reachable (Fetched, old_fs) (save_step 3 None fresh_dir [1, 2] [''d'', ''x.saga'']) (Writing 1, fs) \<and>
     fs_node fs [''d'', ''x.saga''] = Some (File [9] None)"
proof -
  let ?R = "reachable (Fetched, old_fs) (save_step 3 None fresh_dir [1, 2] [''d'', ''x.saga''])"
  let ?fs = "\<lambda>c. fs_put [''d'', ''x.saga.tmp.3''] (Plain (File c None)) old_fs"
  have "?R (Fetched, old_fs)" by (rule reachable_init)
  moreover have "save_step 3 None fresh_dir [1, 2] [''d'', ''x.saga''] (Fetched, old_fs) (DirsMade, old_fs)"
    by (rule save_step.dirs [of _ "[''d'']"])
      (simp_all add: path_parent_def create_dir_all_def old_fs_def fs_node_def fs_entry_def)
  ultimately have "?R (DirsMade, old_fs)" by (rule reachable_step)
  moreover have "save_step 3 None fresh_dir [1, 2] [''d'', ''x.saga''] (DirsMade, old_fs) (Writing 0, ?fs [])"
    by (rule save_step.opened) (simp add: old_fs_tmp fs_write_def old_fs_def fs_node_def fs_entry_def)
  ultimately have "?R (Writing 0, ?fs [])" by (rule reachable_step)
  moreover have "save_step 3 None fresh_dir [1, 2] [''d'', ''x.saga''] (Writing 0, ?fs []) (Writing 1, ?fs [1])"
    by (rule save_step.written)
      (simp_all add: old_fs_tmp fs_write_def old_fs_def fs_node_def fs_entry_def fs_put_def)
  ultimately have r: "?R (Writing 1, ?fs [1])" by (rule reachable_step)
  have "fs_node (?fs [1]) [''d'', ''x.saga''] \<noteq> Some (File [1, 2] None)"
    by (simp add: old_fs_def fs_node_def fs_entry_def fs_put_def)
  with save_atomic [OF r] have "fs_node (?fs [1]) [''d'', ''x.saga''] = fs_node old_fs [''d'', ''x.saga'']"
    by blast
  with r show ?thesis by (auto simp: old_fs_def fs_node_def fs_entry_def)
qed

text \<open>\<open>fetch_to_path\<close> is the run of these steps in which nothing comes in between.\<close>

lemma fs_put_put: "fs_put p n (fs_put p m fs) = fs_put p n fs"
  by (simp add: fs_put_def)

lemma write_run:
  assumes "fs_write now (tmp_path pid dest) b fs = (Ok (), fs')" and "dest \<noteq> []"
  shows "reachable (DirsMade, fs) (save_step pid now dm b dest) (Writing (length b), fs')"
proof -
  let ?tmp = "tmp_path pid dest"
  let ?fs = "fs_put ?tmp (overwrite (File [] now) (fs_entry fs ?tmp)) fs"
  note tmp = tmp_path_props(2) [OF assms(2), of pid]
  then have parent: "butlast ?tmp \<noteq> ?tmp"
    by (metis length_butlast length_greater_0_conv diff_less zero_less_one less_irrefl)
  have opened: "fs_write now ?tmp [] fs = (Ok (), ?fs)"
    using assms(1) by (auto simp: fs_write_def split: option.splits node.splits)
  have dir: "\<exists>m f. fs_node fs (butlast ?tmp) = Some (Dir m f)"
    using assms(1) by (auto simp: fs_write_def split: option.splits node.splits)
  have "fs_write now ?tmp (take (length b) b) ?fs = (Ok (), fs')"
    using dir tmp parent fs_write_Ok [OF assms(1)] by (auto simp: fs_write_def fs_put_put)
  from save_step.written [OF le0 le_refl this] save_step.opened [OF opened]
  show ?thesis by (meson reachable_init reachable_step)
qed

lemma written_run:
  assumes "path_parent dest = Some parent" and "create_dir_all dm parent fs = (Ok (), fs1)"
    and "fs_write now (tmp_path pid dest) b fs1 = (Ok (), fs2)"
  shows "reachable (Fetched, fs) (save_step pid now dm b dest) (Writing (length b), fs2)"
proof (rule reachable_trans [OF write_run [OF assms(3)]])
  show "dest \<noteq> []" using parent_not_root [OF assms(1)] by simp
  show "reachable (Fetched, fs) (save_step pid now dm b dest) (DirsMade, fs1)"
    using save_step.dirs [OF assms(1,2)] by (rule reachable_one)
qed

lemma fetch_to_path_run:
  assumes "fetch_to_path pid now dm (Ok b) dest fs = (res, fs')"
  shows "\<exists>ph. reachable (Fetched, fs) (save_step pid now dm b dest) (ph, fs') \<and>
    (if ph = Saved then res = Ok (length b) else is_err res)"
proof (cases "path_parent dest")
  case None
  with assms show ?thesis by (auto simp: fetch_to_path_def intro!: exI [of _ Fetched] reachable_init)
next
  case (Some parent)
  let ?R = "reachable (Fetched, fs) (save_step pid now dm b dest)"
  obtain r1 fs1 where d: "create_dir_all dm parent fs = (r1, fs1)" by fastforce
  obtain r2 fs2 where w: "fs_write now (tmp_path pid dest) b fs1 = (r2, fs2)" by fastforce
  obtain r3 fs3 where m: "fs_rename (tmp_path pid dest) dest fs2 = (r3, fs3)" by fastforce
  note run = assms [unfolded fetch_to_path_def, simplified Some io_step_def sum.case option.case Let_def d]
  consider (e1) e where "r1 = Err e" | (e2) e where "r1 = Ok ()" "r2 = Err e"
    | (e3) e where "r1 = Ok ()" "r2 = Ok ()" "r3 = Err e" | (ok) "r1 = Ok ()" "r2 = Ok ()" "r3 = Ok ()"
    by (cases r1; cases r2; cases r3) auto
  then show ?thesis
  proof cases
    case e1
    with d have "?R (Failed, fs1)" by (intro reachable_one save_step.dirs_failed [OF Some]) simp
    moreover have "res = Err (Io e)" "fs' = fs1" using run e1 by simp_all
    ultimately show ?thesis by (intro exI [of _ Failed]) simp
  next
    case e2
    with d have "?R (DirsMade, fs1)" by (intro reachable_one save_step.dirs [OF Some]) simp
    moreover have "fs2 = fs1" using w e2(2) by (simp add: fs_write_Err)
    then have "res = Err (Io e)" "fs' = fs1" using run e2 w by simp_all
    ultimately show ?thesis by (intro exI [of _ DirsMade]) simp
  next
    case e3
    with d w have "?R (Writing (length b), fs2)" by (intro written_run [OF Some]) simp_all
    moreover have "fs3 = fs2" using m e3(3) by (simp add: fs_rename_Err)
    then have "res = Err (Io e)" "fs' = fs2" using run e3 w m by simp_all
    ultimately show ?thesis by (intro exI [of _ "Writing (length b)"]) simp
  next
    case ok
    with d w have "?R (Writing (length b), fs2)" by (intro written_run [OF Some]) simp_all
    moreover have "save_step pid now dm b dest (Writing (length b), fs2) (Saved, fs3)"
      using m ok by (intro save_step.renamed) simp_all
    ultimately have "?R (Saved, fs3)" by (rule reachable_step)
    moreover have "res = Ok (length b)" "fs' = fs3" using run ok w m by simp_all
    ultimately show ?thesis by (intro exI [of _ Saved]) simp
  qed
qed

text \<open>
  C35: when \<open>fetch_to_path\<close> returns a length, it is that of the fetched saga, whose bytes the
  destination now holds, and the temporary file is gone; when it returns an error, the
  destination is as it was. No other file changes. Once the saga is there, the function is a
  run of the steps above, so what holds at every moment of a save holds of it.
\<close>

theorem fetch_to_path_result:
  assumes "fetch_to_path pid now dm r dest fs = (res, fs')"
  shows "(\<forall>n. res = Ok n \<longrightarrow> (\<exists>b. r = Ok b \<and> n = length b \<and> fs_node fs' dest = Some (File b now) \<and>
      fs_node fs' (tmp_path pid dest) = None)) \<and>
    (is_err res \<longrightarrow> fs_node fs' dest = fs_node fs dest) \<and>
    (\<forall>q c m. q \<noteq> dest \<longrightarrow> q \<noteq> tmp_path pid dest \<longrightarrow> fs_node fs q = Some (File c m) \<longrightarrow>
       fs_node fs' q = Some (File c m)) \<and>
    (\<forall>b. r = Ok b \<longrightarrow> (\<exists>ph. reachable (Fetched, fs) (save_step pid now dm b dest) (ph, fs') \<and>
       (ph = Saved \<longleftrightarrow> res = Ok (length b))))"
proof (cases r)
  case (Inl e)
  with assms have "res = Err e" "fs' = fs" by (auto simp: fetch_to_path_def)
  with Inl show ?thesis by simp
next
  case (Inr b)
  from fetch_to_path_run [OF assms [unfolded Inr]] obtain ph where
    run: "reachable (Fetched, fs) (save_step pid now dm b dest) (ph, fs')"
    and res: "if ph = Saved then res = Ok (length b) else is_err res" by blast
  then have "ph = Saved \<longleftrightarrow> res = Ok (length b)" by (auto split: if_splits)
  with Inr run res saving.reachable_inv [OF run] show ?thesis
    by (cases "ph = Fetched") (auto simp: save_inv_def keeps_files_def split: if_splits)
qed

theorem fetch_to_path_result_witness:
  "fst (fetch_to_path 3 None fresh_dir (Ok [1, 2]) [''d'', ''x.saga''] old_fs) = Ok 2 \<and>
   fs_node (snd (fetch_to_path 3 None fresh_dir (Ok [1, 2]) [''d'', ''x.saga''] old_fs)) [''d'', ''x.saga''] =
     Some (File [1, 2] None)"
proof -
  have ok: "fst (fetch_to_path 3 None fresh_dir (Ok [1, 2]) [''d'', ''x.saga''] old_fs) = Ok 2"
    by (simp add: fetch_to_path_def path_parent_def io_step_def create_dir_all_def old_fs_tmp
        fs_write_def fs_rename_def old_fs_def fs_node_def fs_entry_def fs_put_def fs_del_def)
  then obtain fs' where "fetch_to_path 3 None fresh_dir (Ok [1, 2]) [''d'', ''x.saga''] old_fs = (Ok 2, fs')"
    by (metis prod.collapse)
  from fetch_to_path_result [OF this] this show ?thesis by auto
qed

end
