(* ===== verification/SagaRelay.thy ===== *)
theory SagaRelay
  imports SagaMirror SagaSave
begin

text \<open>
  From server to server: a saga that a client fetches and saves into the directory of
  another server is served there as well, and listed on its index. This puts together the two
  servers, the two clients and the saving, which the code leaves to its callers.
\<close>

section \<open>When a save succeeds\<close>

text \<open>Nothing stands in the way of the directories, or of a file.\<close>

definition passable :: "fs \<Rightarrow> path \<Rightarrow> bool" where
  "passable fs p \<longleftrightarrow>
     (\<forall>k \<le> length p. case fs_entry fs (take k p) of
        None \<Rightarrow> True
      | Some entry \<Rightarrow> (case follow entry of Some (Dir _ _) \<Rightarrow> True | _ \<Rightarrow> False))"

definition writable :: "fs \<Rightarrow> path \<Rightarrow> bool" where
  "writable fs p \<longleftrightarrow> (case fs_entry fs p of None \<Rightarrow> True | Some (Plain (File _ _)) \<Rightarrow> True | _ \<Rightarrow> False)"

lemma make_dirs_passable:
  "\<forall>k \<le> length cs. case fs_entry fs (pre @ take k cs) of
      None \<Rightarrow> True
    | Some entry \<Rightarrow> (case follow entry of Some (Dir _ _) \<Rightarrow> True | _ \<Rightarrow> False) \<Longrightarrow>
   \<exists>fs'. make_dirs dm pre cs fs = (Ok (), fs')"
proof (induction dm pre cs fs rule: make_dirs.induct)
  case (2 dm pre c cs fs)
  let ?ok = "\<lambda>fs p. case fs_entry fs p of
      None \<Rightarrow> True
    | Some entry \<Rightarrow> (case follow entry of Some (Dir _ _) \<Rightarrow> True | _ \<Rightarrow> False)"
  have here: "?ok fs (pre @ [c])" using "2.prems" [rule_format, of 1] by simp
  have rest: "?ok fs ((pre @ [c]) @ take k cs)" if "k \<le> length cs" for k
    using "2.prems" [rule_format, of "Suc k"] that by simp
  show ?case
  proof (cases "fs_entry fs (pre @ [c])")
    case None
    have "?ok (fs_put (pre @ [c]) (Plain (Dir dm None)) fs) ((pre @ [c]) @ take k cs)" if "k \<le> length cs" for k
      using rest [OF that] by simp
    with "2.IH"(1) [OF None] None show ?thesis by simp
  next
    case (Some entry)
    with here obtain m f where d: "follow entry = Some (Dir m f)"
      by (auto split: option.splits node.splits)
    with "2.IH"(2) [OF Some this] Some rest show ?thesis by simp
  qed
qed simp

lemma save_succeeds:
  assumes "passable fs dir" and "writable fs (dir @ [name])" and "writable fs (tmp_path pid (dir @ [name]))"
  shows "\<exists>fs'. fetch_to_path pid now dm (Ok b) (dir @ [name]) fs = (Ok (length b), fs') \<and>
    fs_entry fs' (dir @ [name]) = Some (Plain (File b now)) \<and> (\<exists>m f. fs_node fs' dir = Some (Dir m f))"
proof -
  let ?dest = "dir @ [name]" and ?tmp = "tmp_path pid (dir @ [name])"
  note tmp = tmp_path_props [of ?dest pid, simplified]
  obtain fs1 where dirs: "create_dir_all dm dir fs = (Ok (), fs1)"
    using make_dirs_passable [of dir fs "[]" dm] assms(1) by (auto simp: passable_def create_dir_all_def)
  obtain m f where dir: "fs_node fs1 dir = Some (Dir m f)" using create_dir_all_dir [OF dirs] by blast
  have "length ?tmp = length ?dest" using tmp(2,3) by (metis append_butlast_last_id length_append_singleton butlast_snoc)
  then have same: "fs_entry fs1 ?dest = fs_entry fs ?dest" "fs_entry fs1 ?tmp = fs_entry fs ?tmp"
    using create_dir_all_entry [OF dirs] by simp_all
  have "fs_write now ?tmp b fs1 = (Ok (), fs_put ?tmp (Plain (File b now)) fs1)"
    using assms(3) same(2) tmp dir
    by (auto simp: fs_write_def fs_node_def writable_def split: option.splits dir_entry.splits node.splits)
  moreover have "fs_rename ?tmp ?dest (fs_put ?tmp (Plain (File b now)) fs1) =
      (Ok (), fs_put ?dest (Plain (File b now)) (fs_del ?tmp (fs_put ?tmp (Plain (File b now)) fs1)))"
    using assms(2) same(1) tmp
    by (auto simp: fs_rename_def writable_def split: option.splits dir_entry.splits node.splits)
  ultimately have "fetch_to_path pid now dm (Ok b) ?dest fs =
      (Ok (length b), fs_put ?dest (Plain (File b now)) (fs_del ?tmp (fs_put ?tmp (Plain (File b now)) fs1)))"
    using dirs by (simp add: fetch_to_path_def path_parent_def io_step_def Let_def)
  moreover have "?tmp \<noteq> dir" using \<open>length ?tmp = length ?dest\<close> by auto
  ultimately show ?thesis using tmp dir by simp
qed

text \<open>The asynchronous save does the same when its task is joined.\<close>

lemma fetch_to_path_async_joined: "fetch_to_path_async pid now dm None = fetch_to_path pid now dm"
  by (simp add: fun_eq_iff fetch_to_path_async_def fetch_to_path_def split: sum.split option.split)

section \<open>A saga on the index\<close>

lemma tenant_hex: "length t = 16 \<Longrightarrow> length (format_tenant_hex t) = 32" "all_hex (format_tenant_hex t)"
  using hex2_hexdigits
  by (auto simp: format_tenant_hex_def length_concat comp_def sum_list_triv all_hex_def)

lemma saga_listed:
  assumes "saga_index fs fs dir = Ok es" and "fs_node fs dir = Some (Dir dm fault)"
    and "fs_entry fs (dir @ [hex @ ''.saga'']) = Some (Plain (File b m))" and "length hex = 32" and "all_hex hex"
  shows "\<lparr>tenant_id_hex = hex, entry_bytes = of_nat (length b),
    last_modified = mtime_secs \<lparr>len = of_nat (length b), modified = m\<rparr>\<rparr> \<in> set es"
proof -
  have "fs_read_dir fs dir = Ok (listing fault (names_in fs dir))" using assms(2) by (simp add: fs_read_dir_def)
  with assms(1,2) obtain rows where rows: "index_entries fs dir (listing fault (names_in fs dir)) = Ok rows"
      "set es = set rows"
    by (auto simp: saga_index_def fs_exists_def fs_metadata_def res_bind_eq_Ok)
  obtain names where "listing fault (names_in fs dir) = map Ok names"
      and es: "rows = List.map_filter (index_row fs dir) names"
    using index_entries_rowsD [OF rows(1)] by blast
  then have "names = names_in fs dir" by (blast dest: listing_names)
  with assms(3-5) show ?thesis
    unfolding rows(2) es in_index_rows by (simp add: entry_metadata_def in_names_in)
qed

section \<open>What mirrors can rely on\<close>

text \<open>
  C19: a saga passes from server to server: what a client fetches from one and saves, under
  the name it asked for, into a directory where nothing stands in its way, any client of a
  server on that directory fetches byte by byte and sees with the time of the save, and the
  index there has it with its length and that time, whichever of the clients are used.
\<close>

theorem saga_relayed:
  assumes "ureq_serves U (base_url c) (handle json delivered fs fs dir root)"
    and "reqwest_serves R (async_base_url d) (handle json delivered fs fs dir root)"
    and "name = format_tenant_hex t @ ''.saga''" and "length t = 16"
    and "fs_node fs (dir @ [name]) = Some (File b m)"
    and "passable here to" and "writable here (to @ [name])" and "writable here (tmp_path pid (to @ [name]))"
  shows "\<exists>there. fetch_to_path pid now dm (fetch U c t) (to @ [name]) here = (Ok (length b), there) \<and>
    fetch_to_path_async pid now dm None (fetch_async R d t) (to @ [name]) here = (Ok (length b), there) \<and>
    (let secs = mtime_secs \<lparr>len = of_nat (length b), modified = now\<rparr> in
     (\<forall>V e json root. ureq_serves V (base_url e) (handle json delivered there there to root) \<longrightarrow>
        fetch V e t = Ok b \<and> head V e t = Ok (Some secs)) \<and>
     (\<forall>S e json root. reqwest_serves S (async_base_url e) (handle json delivered there there to root) \<longrightarrow>
        fetch_async S e t = Ok b \<and> head_async S e t = Ok (Some secs)) \<and>
     (\<forall>es. saga_index there there to = Ok es \<longrightarrow>
        \<lparr>tenant_id_hex = format_tenant_hex t, entry_bytes = of_nat (length b), last_modified = secs\<rparr> \<in> set es))"
proof -
  have got: "fetch U c t = Ok b" "fetch_async R d t = Ok b"
    using sync.get_file [OF assms(1)] async.get_file [OF assms(2)] assms(3,5) by simp_all
  from save_succeeds [OF assms(6-8)] obtain there where
    there: "fetch_to_path pid now dm (Ok b) (to @ [name]) here = (Ok (length b), there)"
      "fs_entry there (to @ [name]) = Some (Plain (File b now))"
    and "\<exists>m f. fs_node there to = Some (Dir m f)" by blast
  then obtain m f where dir: "fs_node there to = Some (Dir m f)" by blast
  note entry = there(2) [unfolded assms(3)]
  have placed: "fs_node there (to @ [format_tenant_hex t @ ''.saga'']) = Some (File b now)"
    using entry by (simp add: fs_node_def)
  show ?thesis
    unfolding got fetch_to_path_async_joined Let_def
    using there(1) sync.get_file [OF _ placed] async.get_file [OF _ placed] sync.stat_file [OF _ placed]
      async.stat_file [OF _ placed] saga_listed [OF _ dir entry tenant_hex(1) [OF assms(4)] tenant_hex(2)]
    by blast
qed

text \<open>The sample saga, saved into a directory that is not there yet.\<close>

theorem saga_relayed_witness:
  "\<exists>there. fetch_to_path 3 (Some 7000000000) fresh_dir (fetch direct_ureq \<lparr>base_url = []\<rparr> (replicate 16 0xAA))
      [''d'', sample_hex @ ''.saga''] [] = (Ok 2, there) \<and>
     (\<forall>es. saga_index there there [''d''] = Ok es \<longrightarrow>
        \<lparr>tenant_id_hex = sample_hex, entry_bytes = 2, last_modified = 7\<rparr> \<in> set es)"
proof -
  have "hex2 0xAA = ''aa''" by code_simp
  then have hex: "format_tenant_hex (replicate 16 0xAA) = sample_hex"
    by (simp add: format_tenant_hex_def sample_hex_def eval_nat_numeral)
  have "passable [] [''d'']" by (simp add: passable_def fs_entry_def le_Suc_eq)
  moreover have "writable [] p" if "p \<noteq> []" for p using that by (simp add: writable_def fs_entry_def)
  moreover have "tmp_path 3 ([''d''] @ [sample_hex @ ''.saga'']) \<noteq> []" by (rule tmp_path_props) simp
  moreover have "ureq_serves direct_ureq (base_url \<lparr>base_url = []\<rparr>) (handle sample_json delivered sample_fs sample_fs [''s''] None)"
    and "reqwest_serves direct_reqwest (async_base_url \<lparr>async_base_url = []\<rparr>)
      (handle sample_json delivered sample_fs sample_fs [''s''] None)"
    using direct_serves by (simp_all add: sample_handler_def [abs_def])
  moreover have "fs_node sample_fs ([''s''] @ [sample_hex @ ''.saga'']) = Some (File [1, 2] (Some 5000000000))"
    by (simp add: fs_node_def fs_entry_def sample_fs_def)
  ultimately obtain there where
    "fetch_to_path 3 (Some 7000000000) fresh_dir (fetch direct_ureq \<lparr>base_url = []\<rparr> (replicate 16 0xAA))
      ([''d''] @ [sample_hex @ ''.saga'']) [] = (Ok (length [1, 2 :: u8]), there)"
    "\<forall>es. saga_index there there [''d''] = Ok es \<longrightarrow>
      \<lparr>tenant_id_hex = sample_hex, entry_bytes = of_nat (length [1, 2 :: u8]),
        last_modified = mtime_secs \<lparr>len = of_nat (length [1, 2 :: u8]), modified = Some 7000000000\<rparr>\<rparr> \<in> set es"
    using saga_relayed [of direct_ureq "\<lparr>base_url = []\<rparr>" sample_json sample_fs "[''s'']" None
        direct_reqwest "\<lparr>async_base_url = []\<rparr>" "sample_hex @ ''.saga''" "replicate 16 0xAA" "[1, 2]"
        "Some 5000000000" "[]" "[''d'']" 3 "Some 7000000000" fresh_dir]
    unfolding hex Let_def by (metis append_is_Nil_conv length_replicate list.distinct(1))
  then show ?thesis
    by (intro exI [of _ there]) (simp add: mtime_secs_def flip: numeral_2_eq_2)
qed

end
