(* ===== verification/SagaRace.thy ===== *)
theory SagaRace
  imports SagaSave SagaServerProps
begin

text \<open>
  The server and a save at work on the same saga. \<open>respond_file\<close> reads the file and then asks
  for its metadata by path, and the save goes on in between: what the server answers at any
  two moments of a save, and what it makes of the temporary file.
\<close>

section \<open>The temporary file\<close>

text \<open>Its name ends in a digit, so it is neither a saga of the index nor on any route.\<close>

lemma tmp_name:
  obtains q where "last (tmp_path pid (dir @ [n])) = q @ show_nat pid"
proof -
  obtain e where "tmp_path pid (dir @ [n]) = path_with_extension (e @ ''.tmp.'' @ show_nat pid) (dir @ [n])"
    by (simp add: tmp_path_def)
  then have "last (tmp_path pid (dir @ [n])) = (fst (split_name n) @ CHR ''.'' # e @ ''.tmp.'') @ show_nat pid"
    by (simp add: path_with_extension_def)
  then show thesis by (rule that)
qed

lemma digit_end:
  assumes "n = p @ show_nat pid" and "suffix s n" and "s \<noteq> []"
  shows "of_char (last s) \<le> (57::nat)"
proof -
  have "last n = last s" using assms(2,3) by (auto elim!: suffixE)
  moreover have "last n = last (show_nat pid)" using assms(1) by simp
  moreover have "last (show_nat pid) \<in> set (show_nat pid)" by simp
  ultimately show ?thesis using show_nat_digit_range [of "last s" pid] by simp
qed

lemma tmp_not_listed: "index_hex (last (tmp_path pid (dir @ [n]))) = None"
proof (rule ccontr)
  assume "index_hex (last (tmp_path pid (dir @ [n]))) \<noteq> None"
  then have s: "suffix ''.saga'' (last (tmp_path pid (dir @ [n])))"
    by (auto simp: index_hex_Some intro: suffixI)
  obtain q where "last (tmp_path pid (dir @ [n])) = q @ show_nat pid" by (rule tmp_name)
  from digit_end [OF this s] show False by simp
qed

lemma tmp_not_served:
  "handle json send fs1 fs2 d root \<lparr>meth = m, url = ''/sagas/'' @ last (tmp_path pid (dir @ [n]))\<rparr> =
     respond_with send (empty_response 404)"
proof -
  obtain q where "last (tmp_path pid (dir @ [n])) = q @ show_nat pid" by (rule tmp_name)
  then have "''/sagas/'' @ last (tmp_path pid (dir @ [n])) = (''/sagas/'' @ q) @ show_nat pid" by simp
  from digit_end [OF this, of "''.saga''"] digit_end [OF this, of "''/members''"]
  show ?thesis by (auto simp: handle_def Let_def)
qed

section \<open>A request in the middle of a save\<close>

text \<open>The saga's bytes and time at a moment of the save.\<close>

definition content_at :: "phase \<Rightarrow> bytes \<times> int option \<Rightarrow> bytes \<times> int option \<Rightarrow> bytes \<times> int option" where
  "content_at ph old new = (if ph = Saved then new else old)"

lemma save_content:
  assumes "reachable (Fetched, fs0) (save_step pid now dm b dest) (ph, fs)"
    and "fs_node fs0 dest = Some (File old t)"
  shows "fs_node fs dest = Some (case_prod File (content_at ph (old, t) (b, now)))"
  using saving.reachable_inv [OF assms(1)] assms(2)
  by (auto simp: save_inv_def content_at_def split: if_splits)

lemma saved_stays: "reachable (Saved, fs) (save_step pid now dm b dest) s \<Longrightarrow> s = (Saved, fs)"
  by (induction rule: reachable.induct) (auto elim: save_step.cases)

text \<open>The answer with the bytes \<open>c\<close> and the time \<open>m\<close>.\<close>

definition sent :: "bytes \<Rightarrow> int option \<Rightarrow> response" where
  "sent c m = data_response c (file_headers (length c) (mtime_secs \<lparr>len = of_nat (length c), modified = m\<rparr>))"

lemma get_two_contents:
  assumes "suffix ''.saga'' name" "CHR ''/'' \<notin> set name" "\<not> sublist ''..'' name"
    and "fs_node fs1 (dir @ [name]) = Some (File c1 m1)" "fs_node fs2 (dir @ [name]) = Some (File c2 m2)"
  shows "handle json send fs1 fs2 dir root \<lparr>meth = Get, url = ''/sagas/'' @ name\<rparr> = respond_with send (sent c1 m2)"
  unfolding handle_saga [OF assms(1)] respond_file_name sent_def
  using assms(2-5) by (simp add: fs_read_def fs_metadata_def Let_def mtime_secs_def)

text \<open>
  C18: a \<open>GET\<close> for a saga while it is saved never sees a part of it: the answer has all the
  old bytes or all the new ones. Its time and ETag are those of the bytes but for one case:
  when the save ends between the server's two looks at the file, the old bytes go out under
  the new time, and if the lengths agree a \<open>HEAD\<close> from then on announces what the client
  already has. The temporary file is not on the index and never served.
\<close>

theorem get_while_saving:
  assumes "suffix ''.saga'' name" "CHR ''/'' \<notin> set name" "\<not> sublist ''..'' name"
    and "fs_node fs0 (dir @ [name]) = Some (File old t)"
    and "reachable (Fetched, fs0) (save_step pid now dm b (dir @ [name])) (ph1, fs1)"
    and "reachable (ph1, fs1) (save_step pid now dm b (dir @ [name])) (ph2, fs2)"
  shows "handle json send fs1 fs2 dir root \<lparr>meth = Get, url = ''/sagas/'' @ name\<rparr> =
      respond_with send (if ph1 = Saved then sent b now else if ph2 = Saved then sent old now else sent old t) \<and>
    (ph1 \<noteq> Saved \<and> ph2 = Saved \<and> length old = length b \<longrightarrow>
      handle json send fs2 fs2 dir root \<lparr>meth = Head, url = ''/sagas/'' @ name\<rparr> = respond_with send \<lparr>status = 200,
        headers = headers (sent old now) @ [(''Content-Length'', show_nat (length b))], body = []\<rparr>) \<and>
    index_hex (last (tmp_path pid (dir @ [name]))) = None \<and>
    (\<forall>m. handle json send fs1 fs2 dir root \<lparr>meth = m, url = ''/sagas/'' @ last (tmp_path pid (dir @ [name]))\<rparr> =
      respond_with send (empty_response 404))"
proof (intro conjI impI allI)
  note at1 = save_content [OF assms(5,4)]
    and at2 = save_content [OF reachable_trans [OF assms(6,5)] assms(4)]
  show "handle json send fs1 fs2 dir root \<lparr>meth = Get, url = ''/sagas/'' @ name\<rparr> =
      respond_with send (if ph1 = Saved then sent b now else if ph2 = Saved then sent old now else sent old t)"
    using get_two_contents [OF assms(1-3), of fs1 dir _ _ fs2] at1 at2 saved_stays assms(6)
    by (cases "ph1 = Saved"; cases "ph2 = Saved") (auto simp: content_at_def)
  assume late: "ph1 \<noteq> Saved \<and> ph2 = Saved \<and> length old = length b"
  then show "handle json send fs2 fs2 dir root \<lparr>meth = Head, url = ''/sagas/'' @ name\<rparr> = respond_with send \<lparr>status = 200,
        headers = headers (sent old now) @ [(''Content-Length'', show_nat (length b))], body = []\<rparr>"
    unfolding handle_saga [OF assms(1)] respond_file_name using assms(2,3) at2
    by (simp add: fs_read_def fs_metadata_def content_at_def sent_def data_response_def Let_def mtime_secs_def)
qed (rule tmp_not_listed tmp_not_served)+

text \<open>Two bytes saved over two others; the server looks before the rename and after it.\<close>

definition busy_fs :: fs where
  "busy_fs = [([''d''], Plain (Dir fresh_dir None)), ([''d'', ''x.saga''], Plain (File [8, 9] (Some 1000000000)))]"

theorem get_while_saving_witness:
  "\<exists>fs2. reachable (Fetched, busy_fs) (save_step 3 (Some 5000000000) fresh_dir [1, 2] [''d'', ''x.saga'']) (Saved, fs2) \<and>
     fs_node fs2 [''d'', ''x.saga''] = Some (File [1, 2] (Some 5000000000)) \<and>
     handle sample_json delivered busy_fs fs2 [''d''] None \<lparr>meth = Get, url = ''/sagas/x.saga''\<rparr> =
       Ok (data_response [8, 9] (file_headers 2 5)) \<and>
     (\<exists>h. handle sample_json delivered fs2 fs2 [''d''] None \<lparr>meth = Head, url = ''/sagas/x.saga''\<rparr> = Ok h \<and>
       headers h = file_headers 2 5 @ [(''Content-Length'', show_nat 2)])"
proof -
  let ?now = "Some 5000000000" and ?t = "[''d'', ''x.saga.tmp.3'']"
  let ?step = "save_step 3 ?now fresh_dir [1, 2] [''d'', ''x.saga'']"
  let ?fs = "\<lambda>c. fs_put ?t (Plain (File c ?now)) busy_fs"
  let ?fs2 = "fs_put [''d'', ''x.saga''] (Plain (File [1, 2] ?now)) (fs_del ?t (?fs [1, 2]))"
  have "?step (Fetched, busy_fs) (DirsMade, busy_fs)"
    by (rule save_step.dirs [of _ "[''d'']"])
      (simp_all add: path_parent_def create_dir_all_def busy_fs_def fs_node_def fs_entry_def)
  moreover have "?step (DirsMade, busy_fs) (Writing 0, ?fs [])"
    by (rule save_step.opened) (simp add: old_fs_tmp fs_write_def busy_fs_def fs_node_def fs_entry_def)
  moreover have "?step (Writing 0, ?fs []) (Writing 2, ?fs [1, 2])"
    by (rule save_step.written) (simp_all add: old_fs_tmp fs_write_def busy_fs_def fs_node_def fs_entry_def fs_put_def)
  moreover have "?step (Writing 2, ?fs [1, 2]) (Saved, ?fs2)"
    by (rule save_step.renamed) (simp_all add: old_fs_tmp fs_rename_def busy_fs_def fs_node_def fs_entry_def fs_put_def)
  ultimately have r: "reachable (Fetched, busy_fs) ?step (Saved, ?fs2)"
    by (meson reachable_init reachable_step)
  have "suffix ''.saga'' ''x.saga''" by (simp add: suffix_Cons)
  moreover have "CHR ''/'' \<notin> set ''x.saga''" by simp
  moreover have "\<not> sublist ''..'' ''x.saga''" by (simp add: sublist_Cons_right)
  moreover have "fs_node busy_fs ([''d''] @ [''x.saga'']) = Some (File [8, 9] (Some 1000000000))"
    by (simp add: busy_fs_def fs_node_def fs_entry_def)
  moreover have "reachable (Fetched, busy_fs) (save_step 3 ?now fresh_dir [1, 2] ([''d''] @ [''x.saga''])) (Fetched, busy_fs)"
    by (rule reachable_init)
  moreover have "reachable (Fetched, busy_fs) (save_step 3 ?now fresh_dir [1, 2] ([''d''] @ [''x.saga''])) (Saved, ?fs2)"
    using r by simp
  ultimately have "handle sample_json delivered busy_fs ?fs2 [''d''] None \<lparr>meth = Get, url = ''/sagas/'' @ ''x.saga''\<rparr> =
      Ok (sent [8, 9] ?now) \<and>
    (\<exists>h. handle sample_json delivered ?fs2 ?fs2 [''d''] None \<lparr>meth = Head, url = ''/sagas/'' @ ''x.saga''\<rparr> = Ok h \<and>
      headers h = headers (sent [8, 9] ?now) @ [(''Content-Length'', show_nat (length [1, 2 :: u8]))])"
    using get_while_saving [of "''x.saga''" busy_fs "[''d'']" "[8, 9]" "Some 1000000000" 3 ?now fresh_dir "[1, 2]"
        Fetched busy_fs Saved ?fs2 sample_json delivered None]
    by simp
  then show ?thesis using r
    by (intro exI [of _ ?fs2])
      (simp add: sent_def mtime_secs_def data_response_def flip: numeral_2_eq_2)
qed

end
