(* ===== verification/Spec2Isabelle.thy ===== *)
theory Spec2Isabelle
  imports Location EnvelopeProps EnvelopeTests PoolSteps PoolRefine ConnectionProps
    TenantProps WriterProps PoolProgress PoolAlone ExchangeSample ModuleTests SagaServerProps SagaClientProps SagaRelay SagaRace
begin

text \<open>
  A model of the network transports of \<open>skeg-rigging\<close>: a workspace of three crates through
  which the peers of a hansa query each other's records and exchange their sagas. The theories
  follow the crates.

  \<^bold>\<open>The program.\<close> \<open>skeg-rigging-net\<close> holds what the transports share: the umbrella error
  (\<open>error.rs\<close>), tenant addresses (\<open>location.rs\<close>) and the envelope a record's payload, flag and
  tags are stored in (\<open>envelope.rs\<close>). \<open>skeg-rigging-net-resp3\<close> talks to a skeg-server: a
  connection (\<open>connection.rs\<close>), a pool of them (\<open>pool.rs\<close>), the owner's writer (\<open>writer.rs\<close>),
  which stores a vector and an envelope per record, and the peer's tenant (\<open>tenant.rs\<close>), which
  searches vectors, fetches the envelopes of the candidates and applies its filter to them.
  \<open>skeg-rigging-net-http\<close> serves the saga files of a directory (\<open>server.rs\<close>, \<open>index.rs\<close>) to a
  synchronous and an asynchronous client (\<open>client.rs\<close>, \<open>async_client.rs\<close>).

  \<^bold>\<open>The theories.\<close>
  \<^item> \<open>Prelude\<close>: machine types, \<open>Result\<close> and the question-mark operator, little-endian bytes,
    reachable states and the interfaces \<open>invariant\<close> and \<open>simulation\<close>.
  \<^item> \<open>RustStr\<close>, \<open>RustNum\<close>, \<open>F32\<close>: what the code uses of the standard library on strings (a
    string is the list of its UTF-8 bytes as characters), integers in decimal and hexadecimal,
    and conversions to \<open>f32\<close> (bit patterns): models of the language and its library, which
    stand for no lines of the code. \<open>F32Props\<close> shows of the last that they round to the nearest
    value, ties to even (\<open>rounds_to\<close>), for the scores of a search.
  \<^item> \<open>NetError\<close>: \<open>NetError\<close>; a message is its format string with the arguments in place.
  \<^item> \<open>Location\<close>: \<open>parse_location\<close>, with a grammar of addresses. \<open>LocationJson\<close>: what is
    documented of the derived JSON form of a location.
  \<^item> \<open>Cursor\<close>, \<open>Envelope\<close>, \<open>EnvelopeProps\<close>: the byte cursor, both encodings and the decoder.
    The interface \<open>field\<close> is the contract of a writer and a reader of one field of a layout
    (what is written is read, what is read was written, a cut is reported as such); it is
    interpreted for the fixed-width fields, and \<open>prefixed\<close> composes it for counted ones up to
    the whole tag table and payload, which the properties rest on.
  \<^item> \<open>Pool\<close>, \<open>PoolSteps\<close>: the critical sections of the pool as functions on the state its mutex
    guards, and all interleavings of threads over them (\<open>pool_step\<close>: calls that pass the loop,
    connect outside the mutex, park on the condition variable, wake up; guards that are dropped
    or discarded; time that passes) with the invariant \<open>pool_inv\<close>. \<open>PoolRefine\<close> states the
    pool's contract as a relation of its own, a lending desk with \<open>max_total\<close> places
    (\<open>desk_step\<close>), which knows no mutex, queue, clock or condition variable, and shows by an
    interpretation of \<open>simulation\<close> that \<open>pool_step\<close> refines it. \<open>PoolProgress\<close> shows by a
    measure (\<open>distance\<close>) that the calls there are come to an end.
  \<^item> \<open>Connection\<close>, \<open>ConnectionProps\<close>: handshake, \<open>send\<close>, \<open>recv\<close> and \<open>call\<close> on an arbitrary
    socket and codec. \<open>carries\<close> reads a connection as the queue of frames still to come.
  \<^item> \<open>Tenant\<close>, \<open>TenantProps\<close>: the sources of connections (\<open>with_conn\<close>), the index list, the
    reply to a search, the query. The interface \<open>lender\<close> is what the query relies on of a
    source of connections.
  \<^item> \<open>PoolSessions\<close>, \<open>PoolAlone\<close>: the threads of the pool with a connection behind every socket
    and the operations \<open>with_conn\<close> runs on it, over a server whose connections may fail in the
    middle of a reply (\<open>session_step\<close>, \<open>answering\<close>, \<open>sends\<close>); \<open>keeps\<close> is a total-correctness
    triple for operations. \<open>PoolAlone\<close> relates this account to the sequential \<open>with_pooled\<close> of
    \<open>Tenant\<close>: the function is the run of the steps in which nobody else acts.
  \<^item> \<open>Writer\<close>, \<open>WriterProps\<close>: \<open>ensure\<close> (here \<open>writer_ensure\<close>), \<open>insert\<close>, \<open>drop_index\<close>; what
    becomes of the server's answer to the creation of an index.
  \<^item> \<open>Exchange\<close>, \<open>ExchangeSample\<close>: a writer and a reader on the wire to a server that keeps
    \<open>server_law\<close> (every request is answered by one frame) and \<open>store_law\<close> (what the commands
    the code sends do), and such a server.
  \<^item> \<open>EnvelopeTests\<close>, \<open>ModuleTests\<close>: the unit tests of \<open>envelope.rs\<close>, \<open>location.rs\<close> and
    \<open>pool.rs\<close>, with the server thread of the latter (\<open>hello_thread\<close>), but the one in which a
    second thread waits.
  \<^item> \<open>Fs\<close>: the file system operations of the HTTP crate, over entries that are nodes or symbolic
    links. A node may be closed to reading or keep even its metadata to itself, and the listing
    of a directory may break off; \<open>fs_metadata\<close> follows a link, \<open>entry_metadata\<close> does not, and
    \<open>fs_exists\<close> is whether the former succeeds.
  \<^item> \<open>SagaServer\<close>, \<open>SagaServerProps\<close>: routing, responses and the accept loop. Sending a response
    (\<open>req.respond\<close>) is the argument \<open>send\<close>; when it fails, that is the handler's error.
  \<^item> \<open>SagaClient\<close>, \<open>SagaClientProps\<close>, \<open>SagaMirror\<close>: both clients, the interface \<open>distributor\<close>
    they both satisfy against the server, and its extension \<open>mirror\<close> by the index and the
    members.
  \<^item> \<open>SagaSave\<close>: \<open>fetch_to_path\<close> one effect at a time, for what an interruption leaves behind;
    the function is a run of these steps (\<open>fetch_to_path_run\<close>).
  \<^item> \<open>SagaRace\<close>: the server at work on a saga that is being saved. \<open>SagaRelay\<close>: a saga that is
    fetched from one server and saved into the directory of another.
  \<^item> this theory: what holds across components, from the writer's \<open>SET\<close> to the reader's hits.

  \<^bold>\<open>What is outside.\<close> Other crates are arguments of the definitions, and what a theorem needs of
  them is a named hypothesis: \<open>serde_json\<close>, \<open>crc32c\<close> and \<open>zstd\<close> in the record \<open>codecs\<close> (laws
  \<open>json_law\<close>, \<open>crc_detects_byte\<close>, \<open>zstd_law\<close>, \<open>zstd_cap_law\<close>); the frame codec of \<open>skeg_resp3\<close>
  and the socket in the record \<open>net\<close> (\<open>codec_law\<close>, \<open>delivers\<close>, \<open>stops\<close>), the skeg-server behind
  it in \<open>server_law\<close> and \<open>store_law\<close>, or in \<open>answering\<close> where it may fail; \<open>ureq\<close> and
  \<open>reqwest\<close> in records of their names (\<open>ureq_serves\<close>, \<open>reqwest_serves\<close>, \<open>ureq_reads\<close>,
  \<open>reqwest_reads\<close>). The derived \<open>serde\<close> instances are generated code: those of an envelope and
  of an index entry are part of the \<open>serde_json\<close> functions above, that of a location is in the
  record \<open>location_json\<close> (\<open>serde_law\<close>). Of the types of \<open>skeg_rigging\<close> and \<open>skeg_resp3\<close> the
  model has the variants and fields the code names. A filter is a predicate.

  \<^bold>\<open>Not modelled.\<close> The time outs of the HTTP agents and capacity hints, which no result depends
  on; running out of memory, so not that \<open>Vec::with_capacity(top_k)\<close> may end the process for a
  huge \<open>top_k\<close>; two links to one file, and the new time of a directory an entry is made in; the
  unit test of a waiting thread; the crate roots, which declare and re-export modules; the integration tests and time
  measurements under \<open>tests/\<close>, which run the code against mock servers of their own: what they
  check on single cases the properties state in general.

  \<^bold>\<open>Conventions.\<close> \<open>usize\<close> is \<open>nat\<close>, and the sizes the code computes stay far below \<open>2 ^ 64\<close>;
  every narrower integer is a word of its width, so casts truncate and counters wrap as in the
  code. A panic and a call that never returns are \<open>None\<close>; no fuel is used: \<open>recv\<close> is the least
  solution of its equation, and \<open>call_returns\<close> says when it returns. The time a thread reads
  is an argument. A borrowing operation is given the times of \<open>acquire\<close> and of the guard's
  drop; run alone at the cap it waits for ever, which is the one case the step relation of
  \<open>PoolSteps\<close> is needed for.

  \<^bold>\<open>The properties.\<close> The query returns nothing the filter did not accept, and exactly the first
  accepted records the writer stored (\<open>query_no_leak\<close>, \<open>query_hits\<close>, \<open>query_succeeds\<close>); from the
  first \<open>insert\<close> to the last hit, over the wire, this is \<open>publish_then_query\<close>. The binary
  envelope is read back for exactly the records that fit its length fields, the decoder accepts
  nothing but encodings and returns nothing but what can be encoded, and truncation and a
  changed byte are reported. The pool keeps its budget, lends a connection to one owner, loses
  no wakeup and never underflows, in all interleavings, refines its abstract contract and
  serves every caller in the end. Threads that share a pool never get each other's replies,
  whatever connections fail (\<open>pooled_replies_in_step\<close>). A
  connection is a queue of frames whatever the fragmentation and stays in step unless a call on
  it failed. The ids and scores of a search are read as the server lists them, each score as the
  nearest \<open>f32\<close> (\<open>vsearch_reply_read\<close>). The server discloses nothing outside its two
  directories; both clients see its index as it is and fetch the sagas on it, and a saga passes
  unchanged from server to server (\<open>saga_relayed\<close>); a save is atomic, and a request in the middle of one gets all of the old bytes or all of the new (\<open>get_while_saving\<close>).
  Some theorems state what the code does where one might expect otherwise:
  \<open>smallest_above_cap_unreadable\<close>, \<open>late_reply_answers_next_call\<close>, the old bytes
  under the new time in \<open>get_while_saving\<close>, a writer for an index whose creation was refused in
  \<open>ensure_accepts_any_answer\<close>, the empty member list for a snapshot whose metadata is refused
  in \<open>get_members\<close>, the size and time of the link in \<open>clients_mirror_the_server\<close>, and the one
  hit of a query for none in \<open>query_hits\<close>.
\<close>

section \<open>From the writer to the reader\<close>

text \<open>
  C2: what a writer publishes a reader finds. On a server that answers the commands the code
  sends as \<open>store_law\<close> says, inserting storable records one after the other succeeds; a tenant
  on the writer's connection then opens on the index, and a query returns, of the candidates
  the server finds, the record last inserted under each id, when the filter accepts its flag
  and tags, with its own payload, in the order of the candidates and up to \<open>top_k\<close> of them
  (at least one). Candidates that were never inserted are skipped.
\<close>

theorem publish_then_query:
  assumes "online L valid pending quiet db serve V" and "ready pending quiet (wconn w)"
    and "dim_of V (db (stream (wconn w))) (windex w) = Some (wdim w)"
    and "\<forall>i. keys_of V (db (stream (wconn w))) (as_bytes (envelope_key_for i)) = None"
    and "\<forall>(i, v, e) \<in> set rs. length v = unat (wdim w) \<and> storable e"
    and "length q = unat (wdim w)"
  shows "\<exists>w' t t'. insert_all ext L rs w = Some (Ok (), w') \<and>
    from_connection L (into_connection w') tid (windex w) = Some (Ok t) \<and>
    query_filtered ext L tm t q top_k accept =
      Some (Ok (take (max 1 (unat top_k)) (List.map_filter (record_hit accept (keyed rs))
        (found_by V (db (stream (into_connection w'))) (search_args (windex w) q (oversample top_k))))), t')"
  using publish_and_query [OF assms] .

theorem publish_then_query_witness:
  "\<exists>w' t t'.
     insert_all sample_codecs wire_net [(7, [0, 0], sample_envelope)] sample_writer = Some (Ok (), w') \<and>
     from_connection wire_net (into_connection w') [] ''hansa'' = Some (Ok t) \<and>
     query_filtered sample_codecs wire_net (0, 1) t [0, 0] 3 meta_shareable =
       Some (Ok [\<lparr>hit_id = 7, similarity = 0x3F800000, hit_payload = [1, 2, 3], embedding = None\<rparr>], t')"
proof -
  have "ready id (\<lambda>s. inbox s = []) (wconn sample_writer)"
    by (simp add: ready_def sample_writer_def)
  from publish_then_query [OF wire_online this, of "[(7, [0, 0], sample_envelope)]" "[0, 0]"
      sample_codecs "[]" "(0, 1)" 3 meta_shareable]
  show ?thesis using sample_storable
    by (simp add: sample_writer_def sample_store_def dim_of_def keyed_def record_hit_def map_filter_simps
        sample_envelope_def)
qed

section \<open>The unit tests\<close>

text \<open>
  The unit tests of the envelope, the location and the pool module, but the one of a waiting
  thread, pass whatever codecs and network are used, as long as the codecs keep their laws, the
  derived JSON form of a location is the documented one, the pool tests' server thread is reached under its address and
  nobody listens on the other, and the steps of a test come one after the other within the
  minute of the idle timeout. Of the two tests that compare sizes, one passes exactly when
  zstd brings 22500 bytes of text to at most 5613, the other when it shortens a text and not
  two bytes.
\<close>

lemma unit_tests_pass:
  assumes "codecs_ok ext" and "serde_law J" and "hello_server L ep" and "no_server L ''127.0.0.1:1''"
    and "t1 \<le> t2" and "t2 - t1 < 60000000000"
  shows "envelope_suite ext \<and> location_suite J \<and> pool_suite L ep t1 t2 \<and>
    (binary_zstd_beats_plain_on_text_payload ext \<longleftrightarrow> zstd_size ext fox \<le> 5613) \<and>
    (binary_zstd_smallest_picks_shorter_per_payload ext \<longleftrightarrow>
       zstd_size ext many_as < 3300 \<and> 2 \<le> zstd_size ext (as_bytes ''hi''))"
  using envelope_tests [OF assms(1)] module_tests [OF assms(2-6)] by blast

end
